theory Spec2Isabelle
  imports Complex_Main "HOL-Library.AList" "HOL-Library.Sublist" "HOL-Library.Char_ord"
    "HOL-Library.List_Lexorder"
begin

section \<open>JSON documents as Python holds them\<close>

text \<open>
  The value \<^verbatim>\<open>json.loads\<close> returns: \<^verbatim>\<open>None\<close>, a bool, an int, a float, a str,
  a list or a dict with string keys. A dict is an association list read through
  \<open>map_of\<close>; an entry shadowed by an earlier one with the same key is not an entry of
  the dict. Python's float values \<^verbatim>\<open>nan\<close> and \<^verbatim>\<open>inf\<close> have no counterpart in
  \<open>JFloat\<close>.
\<close>

datatype json =
    JNull
  | JBool bool
  | JInt int
  | JFloat real
  | JStr string
  | JList "json list"
  | JDict "(string \<times> json) list"

text \<open>\<^verbatim>\<open>d.items()\<close>: the entries of the dict an association list denotes.\<close>

definition dict_items :: "(string \<times> json) list \<Rightarrow> (string \<times> json) list" where
  "dict_items m = filter (\<lambda>(k, v). map_of m k = Some v) m"

text \<open>
  \<^verbatim>\<open>m.get(k, dflt)\<close> on the entries of a dict; \<^verbatim>\<open>data.items()\<close> and
  \<^verbatim>\<open>data.get(k)\<close>, which the source calls on a value it has found to be a dict.
\<close>

definition dict_get :: "(string \<times> json) list \<Rightarrow> string \<Rightarrow> json \<Rightarrow> json" where
  "dict_get m k dflt = (case map_of m k of Some v \<Rightarrow> v | None \<Rightarrow> dflt)"

fun py_items :: "json \<Rightarrow> (string \<times> json) list" where
  "py_items (JDict m) = dict_items m"
| "py_items v = []"

fun py_get :: "json \<Rightarrow> string \<Rightarrow> json" where
  "py_get (JDict m) k = dict_get m k JNull"
| "py_get v k = JNull"

text \<open>\<^verbatim>\<open>k in v\<close> for a dict \<open>v\<close>, and \<^verbatim>\<open>isinstance\<close>.\<close>

definition isinstance_str :: "string \<Rightarrow> bool" where
  "isinstance_str k = True"

fun isinstance_dict :: "json \<Rightarrow> bool" where
  "isinstance_dict (JDict m) = True"
| "isinstance_dict v = False"

fun isinstance_list :: "json \<Rightarrow> bool" where
  "isinstance_list (JList xs) = True"
| "isinstance_list v = False"

fun has_key :: "string \<Rightarrow> json \<Rightarrow> bool" where
  "has_key k (JDict m) = (map_of m k \<noteq> None)"
| "has_key k v = False"

text \<open>Python truthiness, as \<^verbatim>\<open>or\<close> and \<^verbatim>\<open>bool()\<close> read a value.\<close>

fun truthy :: "json \<Rightarrow> bool" where
  "truthy JNull = False"
| "truthy (JBool b) = b"
| "truthy (JInt i) = (i \<noteq> 0)"
| "truthy (JFloat r) = (r \<noteq> 0)"
| "truthy (JStr s) = (s \<noteq> [])"
| "truthy (JList xs) = (xs \<noteq> [])"
| "truthy (JDict m) = (m \<noteq> [])"

definition py_or :: "json \<Rightarrow> json \<Rightarrow> json" where
  "py_or a b = (if truthy a then a else b)"

fun type_name :: "json \<Rightarrow> string" where
  "type_name JNull = ''NoneType''"
| "type_name (JBool b) = ''bool''"
| "type_name (JInt i) = ''int''"
| "type_name (JFloat r) = ''float''"
| "type_name (JStr s) = ''str''"
| "type_name (JList xs) = ''list''"
| "type_name (JDict m) = ''dict''"

section \<open>The classifier\<close>

text \<open>
  \<^verbatim>\<open>_is_api_graph\<close>, defined with the same body in \<^verbatim>\<open>api.py\<close> and \<^verbatim>\<open>cf.py\<close>:
  \<^verbatim>\<open>
  if not isinstance(data, dict): return False
  if "nodes" in data and isinstance(data.get("nodes"), list): return False
  for k, v in data.items():
      if isinstance(k, str) and isinstance(v, dict) and "class_type" in v and "inputs" in v:
          return True
  return False
  \<close>
  The keys of a dict that \<^verbatim>\<open>json.loads\<close> built are strings, which the type of
  \<open>JDict\<close> records, so \<^verbatim>\<open>isinstance(k, str)\<close> is \<open>True\<close> for every entry.
\<close>

definition is_api_graph :: "json \<Rightarrow> bool" where
  "is_api_graph data =
     (if \<not> isinstance_dict data then False
      else if has_key ''nodes'' data \<and> isinstance_list (py_get data ''nodes'') then False
      else list_ex (\<lambda>(k, v). isinstance_str k \<and> isinstance_dict v \<and>
                            has_key ''class_type'' v \<and> has_key ''inputs'' v)
             (py_items data))"

text \<open>
  The classifier as section 4.1 of the specification words it: false on a value that is
  not a mapping; false on a mapping with a key \<open>nodes\<close> whose value is a sequence;
  otherwise true exactly when some entry of the mapping has a string key and a mapping
  value holding both a \<open>class_type\<close> and an \<open>inputs\<close> entry.
\<close>

definition isApiGraph_spec :: "json \<Rightarrow> bool" where
  "isApiGraph_spec d =
     (\<exists>m. d = JDict m \<and>
        (\<nexists>xs. map_of m ''nodes'' = Some (JList xs)) \<and>
        (\<exists>k v vm. map_of m k = Some v \<and> v = JDict vm \<and>
           map_of vm ''class_type'' \<noteq> None \<and> map_of vm ''inputs'' \<noteq> None))"

section \<open>Exceptions\<close>

text \<open>
  The exceptions the two modules can meet. \<open>ReadError\<close> is what reading a regular file
  raises when its text cannot be obtained (a \<^verbatim>\<open>UnicodeDecodeError\<close>, say), with its
  message; the exceptions after it carry their messages too. The messages of the
  operating system's errors are given without the path Python appends.
\<close>

datatype exn =
    FileNotFoundError
  | IsADirectoryError
  | NotADirectoryError
  | FileExistsError
  | ReadError string
  | JSONDecodeError string
  | AttributeError string
  | UnicodeEncodeError string
  | OSError string
  | RecursionError string
  | ValueError string
  | NotImplementedError string

fun str_exn :: "exn \<Rightarrow> string" where
  "str_exn FileNotFoundError = ''[Errno 2] No such file or directory''"
| "str_exn IsADirectoryError = ''[Errno 21] Is a directory''"
| "str_exn NotADirectoryError = ''[Errno 20] Not a directory''"
| "str_exn FileExistsError = ''[Errno 17] File exists''"
| "str_exn (ReadError msg) = msg"
| "str_exn (JSONDecodeError msg) = msg"
| "str_exn (AttributeError msg) = msg"
| "str_exn (UnicodeEncodeError msg) = msg"
| "str_exn (OSError msg) = msg"
| "str_exn (RecursionError msg) = msg"
| "str_exn (ValueError msg) = msg"
| "str_exn (NotImplementedError msg) = msg"

section \<open>Strings and path names\<close>

text \<open>
  \<^verbatim>\<open>str.lower\<close> on the ASCII letters. A character outside ASCII is several bytes of a
  \<open>string\<close>, none of them a letter, and stays as it is.
\<close>

definition ascii_lower :: "char \<Rightarrow> char" where
  "ascii_lower c =
     (case map_of (zip ''ABCDEFGHIJKLMNOPQRSTUVWXYZ'' ''abcdefghijklmnopqrstuvwxyz'') c of
        Some l \<Rightarrow> l
      | None \<Rightarrow> c)"

definition lower :: "string \<Rightarrow> string" where
  "lower s = map ascii_lower s"

text \<open>\<^verbatim>\<open>s.endswith(suf)\<close> and \<^verbatim>\<open>s.replace("-", " ")\<close>.\<close>

definition endswith :: "string \<Rightarrow> string \<Rightarrow> bool" where
  "endswith s suf = (length suf \<le> length s \<and> drop (length s - length suf) s = suf)"

definition replace_hyphen :: "string \<Rightarrow> string" where
  "replace_hyphen s = map (\<lambda>c. if c = CHR ''-'' then CHR '' '' else c) s"

text \<open>
  A \<^verbatim>\<open>Path\<close> is the list of its parts. \<^verbatim>\<open>Path(s)\<close> on a POSIX system splits \<open>s\<close>
  at \<open>/\<close> and drops the empty parts and the parts \<open>.\<close>; a part \<open>..\<close> stays.
  \<^verbatim>\<open>Path(s).name\<close> is the last part, or the empty string when there is none.
\<close>

type_synonym path = "string list"

fun split_sep :: "string \<Rightarrow> string list" where
  "split_sep [] = [[]]"
| "split_sep (c # cs) =
     (if c = CHR ''/'' then [] # split_sep cs
      else (case split_sep cs of
              [] \<Rightarrow> [[c]]
            | w # ws \<Rightarrow> (c # w) # ws))"

definition path_parts :: "string \<Rightarrow> path" where
  "path_parts s = filter (\<lambda>c. c \<noteq> [] \<and> c \<noteq> ''.'') (split_sep s)"

definition path_name :: "string \<Rightarrow> string" where
  "path_name s = (case rev (path_parts s) of [] \<Rightarrow> [] | c # cs \<Rightarrow> c)"

text \<open>\<^verbatim>\<open>p.name\<close> of a path already split into parts.\<close>

definition name_of :: "path \<Rightarrow> string" where
  "name_of p = (case rev p of [] \<Rightarrow> [] | c # cs \<Rightarrow> c)"

text \<open>
  \<^verbatim>\<open>dir / name\<close> for the names the two modules join: a single part, or the empty
  string, which leaves the directory as it is.
\<close>

definition pjoin :: "path \<Rightarrow> string \<Rightarrow> path" where
  "pjoin d n = (if n = [] then d else d @ [n])"

text \<open>
  \<^verbatim>\<open>name.rfind('.')\<close>, and \<^verbatim>\<open>suffix\<close> and \<^verbatim>\<open>stem\<close> as \<^verbatim>\<open>pathlib\<close> computes them
  (up to Python 3.13): with \<open>i\<close> the index of the last dot, the suffix is \<open>name[i:]\<close>
  when \<open>0 < i < len(name) - 1\<close> and empty otherwise; the stem is the rest.
\<close>

fun rfind :: "char \<Rightarrow> string \<Rightarrow> nat option" where
  "rfind c [] = None"
| "rfind c (x # xs) =
     (case rfind c xs of
        Some i \<Rightarrow> Some (Suc i)
      | None \<Rightarrow> if x = c then Some 0 else None)"

definition suffix_of :: "string \<Rightarrow> string" where
  "suffix_of name =
     (case rfind CHR ''.'' name of
        Some i \<Rightarrow> if 0 < i \<and> i + 1 < length name then drop i name else []
      | None \<Rightarrow> [])"

definition stem_of :: "string \<Rightarrow> string" where
  "stem_of name =
     (case rfind CHR ''.'' name of
        Some i \<Rightarrow> if 0 < i \<and> i + 1 < length name then take i name else name
      | None \<Rightarrow> name)"

section \<open>Library functions taken as parameters\<close>

text \<open>
  The two modules call \<^verbatim>\<open>json.loads\<close>, \<^verbatim>\<open>json.dumps(data, ensure_ascii=False,
  indent=2)\<close>, the UTF-8 encoder behind \<^verbatim>\<open>write_text(..., encoding="utf-8")\<close>,
  \<^verbatim>\<open>str.title\<close> and \<^verbatim>\<open>Path.glob\<close>. None of them is code of the repository; the
  model takes them as parameters, and every theorem holds for whatever they compute.
  \<^item> \<open>loads\<close> and \<open>dumps\<close> return their result or the exception they raise
    (\<^verbatim>\<open>json.dumps\<close> with an indent can raise \<^verbatim>\<open>RecursionError\<close> on a document
    \<^verbatim>\<open>json.loads\<close> accepted).
  \<^item> \<open>utf8_error s\<close> is the message of the \<^verbatim>\<open>UnicodeEncodeError\<close> that encoding the
    text \<open>s\<close> raises, if it raises: a text that \<^verbatim>\<open>json.loads\<close> built from the escape
    of a lone surrogate cannot be encoded.
  \<^item> \<open>os_refuses p\<close> is the \<^verbatim>\<open>OSError\<close> of a path the operating system refuses to
    look up, if it refuses it: a path with a name longer than the file system allows.
  \<^item> \<open>fnmatch pat rel\<close> says whether the path \<open>rel\<close>, relative to the directory
    searched, matches the pattern \<open>pat\<close>, and \<open>glob_error pat\<close> is the exception
    \<^verbatim>\<open>Path.glob\<close> raises on a pattern it refuses (the empty pattern, say).
\<close>

record lib =
  loads :: "string \<Rightarrow> exn + json"
  dumps :: "json \<Rightarrow> exn + string"
  utf8_error :: "string \<Rightarrow> string option"
  os_refuses :: "path \<Rightarrow> exn option"
  str_title :: "string \<Rightarrow> string"
  fnmatch :: "string \<Rightarrow> path \<Rightarrow> bool"
  glob_error :: "string \<Rightarrow> exn option"

section \<open>The file system\<close>

text \<open>
  One store for every directory, so that two paths can name the same file. A key is a
  path from the root without \<open>..\<close>; a node is a directory or a regular file, and a file
  holds what \<^verbatim>\<open>read_text\<close> gives: its text, or the exception reading it raises.
  There are no symbolic links, permissions or quotas: an operation fails only for what
  the store holds, for its text, or for a path the operating system refuses
  (\<open>os_refuses\<close>). \<open>walk\<close> resolves a path as the operating system does,
  part by part: a part is looked up in a directory only, and \<open>..\<close> goes to the parent.
\<close>

datatype node = Dir | File "exn + string"

type_synonym fs = "(path \<times> node) list"

definition is_dir_key :: "fs \<Rightarrow> path \<Rightarrow> bool" where
  "is_dir_key fs q = (q = [] \<or> map_of fs q = Some Dir)"

fun walk :: "fs \<Rightarrow> path \<Rightarrow> path \<Rightarrow> path option" where
  "walk fs cur [] = Some cur"
| "walk fs cur (c # cs) =
     (if is_dir_key fs cur
      then (if c = ''..'' then walk fs (butlast cur) cs else walk fs (cur @ [c]) cs)
      else None)"

definition resolve :: "fs \<Rightarrow> path \<Rightarrow> path option" where
  "resolve fs p = walk fs [] p"

definition stat :: "fs \<Rightarrow> path \<Rightarrow> node option" where
  "stat fs p =
     (case resolve fs p of
        None \<Rightarrow> None
      | Some q \<Rightarrow> if q = [] then Some Dir else map_of fs q)"

definition path_exists :: "fs \<Rightarrow> path \<Rightarrow> bool" where
  "path_exists fs p = (stat fs p \<noteq> None)"

definition is_file :: "fs \<Rightarrow> path \<Rightarrow> bool" where
  "is_file fs p = (case stat fs p of Some (File c) \<Rightarrow> True | _ \<Rightarrow> False)"

text \<open>
  \<^verbatim>\<open>p.read_text(encoding="utf-8")\<close>. A path that does not resolve raises
  \<open>FileNotFoundError\<close> here, also where Python raises \<open>NotADirectoryError\<close>; the
  callers treat the two alike.
\<close>

definition read_text :: "fs \<Rightarrow> path \<Rightarrow> exn + string" where
  "read_text fs p =
     (case stat fs p of
        None \<Rightarrow> Inl FileNotFoundError
      | Some Dir \<Rightarrow> Inl IsADirectoryError
      | Some (File c) \<Rightarrow> c)"

text \<open>
  \<^verbatim>\<open>p.write_text(s, encoding="utf-8")\<close> opens the file for writing and writes the
  encoded text. Opening raises on a directory and where the parent cannot be reached,
  and then nothing changes. Otherwise opening creates the file or empties it; when the
  text cannot be encoded the write raises \<^verbatim>\<open>UnicodeEncodeError\<close> and the file stays
  empty. The result is the file system after the call and the exception, if one was
  raised.
\<close>

definition write_text :: "lib \<Rightarrow> fs \<Rightarrow> path \<Rightarrow> string \<Rightarrow> fs \<times> exn option" where
  "write_text L fs p s =
     (case resolve fs p of
        None \<Rightarrow> (fs, Some FileNotFoundError)
      | Some q \<Rightarrow>
          if is_dir_key fs q then (fs, Some IsADirectoryError)
          else (case utf8_error L s of
                  Some msg \<Rightarrow> (AList.update q (File (Inr [])) fs, Some (UnicodeEncodeError msg))
                | None \<Rightarrow> (AList.update q (File (Inr s)) fs, None)))"

text \<open>
  \<^verbatim>\<open>p.mkdir(parents=True, exist_ok=True)\<close>: every missing directory on the way is
  created; a regular file on the way raises, and the directories created before it
  stay.
\<close>

fun mkdirs :: "fs \<Rightarrow> path \<Rightarrow> path \<Rightarrow> fs \<times> exn option" where
  "mkdirs fs cur [] = (fs, None)"
| "mkdirs fs cur (c # cs) =
     (if c = ''..'' then mkdirs fs (butlast cur) cs
      else (case map_of fs (cur @ [c]) of
              None \<Rightarrow> mkdirs (AList.update (cur @ [c]) Dir fs) (cur @ [c]) cs
            | Some Dir \<Rightarrow> mkdirs fs (cur @ [c]) cs
            | Some (File x) \<Rightarrow>
                (fs, Some (if cs = [] then FileExistsError else NotADirectoryError))))"

definition mkdir_p :: "fs \<Rightarrow> path \<Rightarrow> fs \<times> exn option" where
  "mkdir_p fs p = mkdirs fs [] p"

text \<open>The names of the entries directly inside a directory.\<close>

definition children :: "fs \<Rightarrow> path \<Rightarrow> string list" where
  "children fs d =
     (case resolve fs d of
        None \<Rightarrow> []
      | Some q \<Rightarrow>
          if is_dir_key fs q
          then remdups (map name_of (filter (\<lambda>k. k \<noteq> [] \<and> butlast k = q) (map fst fs)))
          else [])"

section \<open>The catalog: \<^verbatim>\<open>api.py\<close>\<close>

text \<open>
  \<^verbatim>\<open>_load_json\<close>: open the file, read it and parse it; each step can raise.
\<close>

definition load_json :: "lib \<Rightarrow> fs \<Rightarrow> path \<Rightarrow> exn + json" where
  "load_json L fs p =
     (case read_text fs p of
        Inl e \<Rightarrow> Inl e
      | Inr text \<Rightarrow> loads L text)"

text \<open>
  \<^verbatim>\<open>_meta_from\<close>:
  \<^verbatim>\<open>
  meta = {}
  if isinstance(data, dict):
      meta = data.get("cvb_meta", {}) or {}
  title = meta.get("title") or path.stem.replace("-", " ").title()
  ...
  \<close>
  \<open>meta\<close> is whatever \<open>cvb_meta\<close> holds when that is truthy; \<^verbatim>\<open>meta.get\<close> on a
  value that is not a dict raises \<^verbatim>\<open>AttributeError\<close>. The result is the dict of the
  five fields, in the order the source builds it.
\<close>

definition no_attribute_get :: "json \<Rightarrow> exn" where
  "no_attribute_get v =
     AttributeError
       ([CHR 0x27] @ type_name v @ [CHR 0x27] @ '' object has no attribute '' @
        [CHR 0x27] @ ''get'' @ [CHR 0x27])"

definition meta_from :: "lib \<Rightarrow> string \<Rightarrow> json \<Rightarrow> exn + (string \<times> json) list" where
  "meta_from L name data =
     (let meta = (case data of
                    JDict m \<Rightarrow> py_or (dict_get m ''cvb_meta'' (JDict [])) (JDict [])
                  | _ \<Rightarrow> JDict [])
      in case meta of
           JDict mm \<Rightarrow>
             (let title = py_or (dict_get mm ''title'' JNull)
                            (JStr (str_title L (replace_hyphen (stem_of name))));
                  desc = dict_get mm ''description'' (JStr []);
                  tags = dict_get mm ''tags'' (JList []);
                  version = dict_get mm ''version'' (JStr ''1'')
              in Inr [(''id'', py_or (dict_get mm ''id'' JNull) (JStr (stem_of name))),
                      (''title'', title),
                      (''description'', desc),
                      (''tags'', tags),
                      (''version'', version)])
         | v \<Rightarrow> Inl (no_attribute_get v))"

text \<open>
  \<^verbatim>\<open>_list_files\<close>: \<^verbatim>\<open>sorted(p for p in WORKFLOWS_DIR.glob("*.json") if p.is_file())\<close>,
  as the names of the files. The pattern \<open>*.json\<close> matches the names that end in
  \<open>.json\<close>, hidden ones too.
\<close>

definition list_files :: "fs \<Rightarrow> path \<Rightarrow> string list" where
  "list_files fs WORKFLOWS_DIR =
     sort (filter (\<lambda>n. is_file fs (WORKFLOWS_DIR @ [n]))
             (filter (\<lambda>n. endswith n ''.json'') (children fs WORKFLOWS_DIR)))"

text \<open>
  One round of the loop of \<^verbatim>\<open>list_workflows\<close>. An entry is the dict the source
  builds, keys in its order. \<open>names\<close> are the keys of the dict \<^verbatim>\<open>names\<close>, and the
  path of a name is \<^verbatim>\<open>WORKFLOWS_DIR / name\<close>.
\<close>

definition error_entry :: "string \<Rightarrow> exn \<Rightarrow> (string \<times> json) list" where
  "error_entry name e =
     [(''id'', JStr (stem_of name)),
      (''title'', JStr (stem_of name)),
      (''description'', JStr (''Failed to parse: '' @ str_exn e)),
      (''filename'', JStr name),
      (''is_api'', JBool False),
      (''raw_url'', JStr (''/cvb/workflows/'' @ name @ ''?format=raw'')),
      (''template_url'', JStr (''/cvb/workflows/'' @ name @ ''?format=api'')),
      (''error'', JBool True)]"

definition list_entry :: "lib \<Rightarrow> fs \<Rightarrow> path \<Rightarrow> string list \<Rightarrow> string \<Rightarrow> (string \<times> json) list" where
  "list_entry L fs WORKFLOWS_DIR names name =
     (case load_json L fs (WORKFLOWS_DIR @ [name]) of
        Inl e \<Rightarrow> error_entry name e
      | Inr data \<Rightarrow>
          (case meta_from L name data of
             Inl e \<Rightarrow> error_entry name e
           | Inr meta \<Rightarrow>
               (let is_api = (is_api_graph data \<or> endswith (stem_of name) ''.api'');
                    api_name = stem_of name @ ''.api.json'';
                    companion = (if \<not> is_api \<and> api_name \<in> set names then Some api_name else None);
                    is_api2 = (case companion of
                                 None \<Rightarrow> is_api
                               | Some c \<Rightarrow>
                                   (case load_json L fs (WORKFLOWS_DIR @ [c]) of
                                      Inr d \<Rightarrow> is_api_graph d \<or> True
                                    | Inl e \<Rightarrow> is_api));
                    template_url = (case companion of
                                      Some c \<Rightarrow> ''/cvb/workflows/'' @ c @ ''?format=api''
                                    | None \<Rightarrow> ''/cvb/workflows/'' @ name @ ''?format=api'')
                in meta @
                   [(''filename'', JStr name),
                    (''is_api'', JBool is_api2),
                    (''raw_url'', JStr (''/cvb/workflows/'' @ name @ ''?format=raw'')),
                    (''template_url'', JStr template_url)])))"

definition list_workflows :: "lib \<Rightarrow> fs \<Rightarrow> path \<Rightarrow> (string \<times> json) list list" where
  "list_workflows L fs WORKFLOWS_DIR =
     (let names = list_files fs WORKFLOWS_DIR
      in map (list_entry L fs WORKFLOWS_DIR names) names)"

text \<open>
  \<^verbatim>\<open>get_workflow\<close>. \<open>req_name\<close> is \<^verbatim>\<open>request.match_info.get("name", "")\<close> and
  \<open>query_format\<close> the \<open>format\<close> parameter of the query, if it has one. The file is
  read and parsed before the format is looked at, and any exception of the two becomes
  the 500 response.
\<close>

record response =
  status :: nat
  body :: string
  content_type :: string
  headers :: "(string \<times> string) list"

definition cors :: "(string \<times> string) list" where
  "cors = [(''Access-Control-Allow-Origin'', ''*'')]"

definition json_ok :: "string \<Rightarrow> response" where
  "json_ok text = \<lparr>status = 200, body = text, content_type = ''application/json'', headers = cors\<rparr>"

definition not_found :: response where
  "not_found = \<lparr>status = 404, body = ''Workflow not found'', content_type = ''text/plain'', headers = []\<rparr>"

definition ui_not_api :: response where
  "ui_not_api =
     \<lparr>status = 422,
      body = ''Workflow is a UI workflow, not an API graph. Export API (JSON) and save as .api.json.'',
      content_type = ''text/plain'', headers = cors\<rparr>"

definition bad_format :: response where
  "bad_format = \<lparr>status = 400, body = ''Invalid format; use raw|api'', content_type = ''text/plain'', headers = []\<rparr>"

definition read_failed :: "exn \<Rightarrow> response" where
  "read_failed e =
     \<lparr>status = 500, body = ''Failed to read workflow: '' @ str_exn e,
      content_type = ''text/plain'', headers = []\<rparr>"

definition get_workflow :: "lib \<Rightarrow> fs \<Rightarrow> path \<Rightarrow> string \<Rightarrow> string option \<Rightarrow> response" where
  "get_workflow L fs WORKFLOWS_DIR req_name query_format =
     (let name = path_name req_name;
          fmt = lower (case query_format of None \<Rightarrow> ''raw'' | Some f \<Rightarrow> f);
          path = pjoin WORKFLOWS_DIR name
      in if \<not> (path_exists fs path \<and> is_file fs path \<and> suffix_of (name_of path) = ''.json'')
         then not_found
         else (case read_text fs path of
                 Inl e \<Rightarrow> read_failed e
               | Inr text \<Rightarrow>
                   (case loads L text of
                      Inl e \<Rightarrow> read_failed e
                    | Inr data \<Rightarrow>
                        if fmt = ''raw'' then json_ok text
                        else if fmt = ''api''
                        then (if is_api_graph data then json_ok text else ui_not_api)
                        else bad_format)))"

section \<open>The batch exporter: \<^verbatim>\<open>cf.py\<close>\<close>

definition target_name :: "string \<Rightarrow> string" where
  "target_name src_name =
     (let n = path_name src_name
      in if suffix_of n = ''.json'' \<and> endswith (stem_of n) ''.api'' then n
         else stem_of n @ ''.api.json'')"

text \<open>
  \<^verbatim>\<open>source_dir.glob(pat)\<close>, read to its end as \<^verbatim>\<open>sorted\<close> reads it: the exception
  of a pattern that is refused, or the existing paths below the directory whose path
  relative to it matches the pattern. Patterns that reach outside the directory through
  \<open>..\<close> are not modelled.
\<close>

definition glob_paths :: "lib \<Rightarrow> fs \<Rightarrow> path \<Rightarrow> string \<Rightarrow> exn + path list" where
  "glob_paths L fs d pat =
     (case glob_error L pat of
        Some e \<Rightarrow> Inl e
      | None \<Rightarrow>
          (case resolve fs d of
             None \<Rightarrow> Inr []
           | Some q \<Rightarrow>
               Inr (map (\<lambda>k. d @ drop (length q) k)
                      (filter (\<lambda>k. strict_prefix q k \<and> fnmatch L pat (drop (length q) k) \<and>
                                    path_exists fs (d @ drop (length q) k))
                         (remdups (map fst fs))))))"

text \<open>
  The loop of \<^verbatim>\<open>convert_all\<close> over the sorted paths, with the file system, the list
  \<open>converted\<close> and the list \<open>skipped\<close> as its state. The line
  \<^verbatim>\<open>out_path.write_text(json.dumps(data, ensure_ascii=False, indent=2), encoding="utf-8")\<close>
  is outside every \<^verbatim>\<open>try\<close>: an exception of \<^verbatim>\<open>json.dumps\<close> or of \<^verbatim>\<open>write_text\<close>
  ends the call, no list is returned, and what was written before stays written. So
  does the \<^verbatim>\<open>OSError\<close> of \<^verbatim>\<open>out_path.exists()\<close> on a path the operating system
  refuses to look up: the derived name can be longer than the name of the source file,
  and \<^verbatim>\<open>Path.exists\<close> passes that error on (up to Python 3.12; later versions meet it
  in \<^verbatim>\<open>write_text\<close>).
\<close>

fun convert_files ::
  "lib \<Rightarrow> path \<Rightarrow> bool \<Rightarrow> fs \<Rightarrow> string list \<Rightarrow> string list \<Rightarrow> path list \<Rightarrow>
   fs \<times> (exn + string list \<times> string list)" where
  "convert_files L dest_dir overwrite fs converted skipped [] = (fs, Inr (converted, skipped))"
| "convert_files L dest_dir overwrite fs converted skipped (p # ps) =
     (if \<not> is_file fs p then convert_files L dest_dir overwrite fs converted skipped ps
      else (case load_json L fs p of
              Inl e \<Rightarrow> convert_files L dest_dir overwrite fs converted (skipped @ [name_of p]) ps
            | Inr data \<Rightarrow>
                if is_api_graph data
                then (let out_name = target_name (name_of p);
                          out_path = pjoin dest_dir out_name
                      in (case os_refuses L out_path of
                            Some e \<Rightarrow> (fs, Inl e)
                          | None \<Rightarrow>
                              if path_exists fs out_path \<and> \<not> overwrite
                              then convert_files L dest_dir overwrite fs converted skipped ps
                              else (case dumps L data of
                                      Inl e \<Rightarrow> (fs, Inl e)
                                    | Inr text \<Rightarrow>
                                        (case write_text L fs out_path text of
                                           (fs', Some e) \<Rightarrow> (fs', Inl e)
                                         | (fs', None) \<Rightarrow>
                                             convert_files L dest_dir overwrite fs'
                                               (converted @ [out_name]) skipped ps))))
                else convert_files L dest_dir overwrite fs converted (skipped @ [name_of p]) ps))"

definition convert_all ::
  "lib \<Rightarrow> fs \<Rightarrow> path \<Rightarrow> path \<Rightarrow> bool \<Rightarrow> string \<Rightarrow> fs \<times> (exn + string list \<times> string list)" where
  "convert_all L fs source_dir dest_dir overwrite pat =
     (case mkdir_p fs dest_dir of
        (fs1, Some e) \<Rightarrow> (fs1, Inl e)
      | (fs1, None) \<Rightarrow>
          (case glob_paths L fs1 source_dir pat of
             Inl e \<Rightarrow> (fs1, Inl e)
           | Inr paths \<Rightarrow> convert_files L dest_dir overwrite fs1 [] [] (sort paths)))"

section \<open>Notions for the exporter's theorems\<close>

text \<open>
  The key a path resolves to, when it resolves: \<open>..\<close> removes the part before it.
\<close>

fun lnorm :: "path \<Rightarrow> path \<Rightarrow> path" where
  "lnorm cur [] = cur"
| "lnorm cur (c # cs) = (if c = ''..'' then lnorm (butlast cur) cs else lnorm (cur @ [c]) cs)"

definition norm_path :: "path \<Rightarrow> path" where
  "norm_path p = lnorm [] p"

text \<open>
  \<open>extends_files fs fs'\<close>: every entry of \<open>fs\<close> is an entry of \<open>fs'\<close>, and \<open>fs'\<close>
  has no directory that \<open>fs\<close> has not. \<open>api_file\<close>: the path loads, and the classifier
  holds of the document. \<open>changed_in_dest\<close>: the entry was a regular file, it lies
  directly in the destination directory, and it is a regular file with a text still.
\<close>

definition extends_files :: "fs \<Rightarrow> fs \<Rightarrow> bool" where
  "extends_files fs fs' =
     (\<forall>k. (map_of fs k \<noteq> None \<longrightarrow> map_of fs' k = map_of fs k) \<and>
          (map_of fs' k = Some Dir \<longrightarrow> map_of fs k = Some Dir))"

definition api_file :: "lib \<Rightarrow> fs \<Rightarrow> path \<Rightarrow> bool" where
  "api_file L fs p = (case load_json L fs p of Inr d \<Rightarrow> is_api_graph d | Inl e \<Rightarrow> False)"

text \<open>
  \<open>write_error\<close>: the exception that serialising a document and encoding its text
  raises, if either does.
\<close>

definition write_error :: "lib \<Rightarrow> json \<Rightarrow> exn option" where
  "write_error L data =
     (case dumps L data of
        Inl e \<Rightarrow> Some e
      | Inr text \<Rightarrow>
          (case utf8_error L text of
             Some msg \<Rightarrow> Some (UnicodeEncodeError msg)
           | None \<Rightarrow> None))"

definition changed_in_dest :: "path \<Rightarrow> fs \<Rightarrow> path \<Rightarrow> node \<Rightarrow> bool" where
  "changed_in_dest dst fs' k n =
     (\<exists>c out s. n = File c \<and> k = norm_path dst @ [out] \<and> map_of fs' k = Some (File (Inr s)))"

text \<open>
  \<open>raised_on\<close>: the call raised on a matched API graph. Its exception is the refusal
  of the graph's destination path, or the one that serialising or encoding the graph's
  document raises, for a graph whose destination did not exist.
\<close>

definition raised_on ::
  "lib \<Rightarrow> fs \<Rightarrow> path \<Rightarrow> path list \<Rightarrow> exn + string list \<times> string list \<Rightarrow> bool" where
  "raised_on L fs dst ps r =
     (\<exists>p d e. r = Inl e \<and> p \<in> set ps \<and> load_json L fs p = Inr d \<and> is_api_graph d \<and>
        (os_refuses L (dst @ [target_name (name_of p)]) = Some e \<or>
         write_error L d = Some e \<and> \<not> path_exists fs (dst @ [target_name (name_of p)])))"

section \<open>Concrete instances\<close>

text \<open>
  A file system and library functions to run the model on. \<open>demo_loads\<close> parses the
  texts below as \<^verbatim>\<open>json.loads\<close> does and rejects every other text, with the
  message \<^verbatim>\<open>json.loads\<close> gives for \<open>bad_text\<close>; \<open>demo_dumps\<close> prints \<open>api_doc\<close> and
  \<open>sur_doc\<close> as \<^verbatim>\<open>json.dumps(data, ensure_ascii=False, indent=2)\<close> does;
  \<open>demo_utf8_error\<close> refuses the text of \<open>sur_doc\<close> with Python's message;
  \<open>demo_os_refuses\<close> refuses a path with a name of more than 255 bytes;
  \<open>ascii_title\<close> is \<^verbatim>\<open>str.title\<close> on ASCII text; \<open>demo_fnmatch\<close> knows the pattern
  \<open>*.json\<close>, and \<open>demo_glob_error\<close> refuses the empty pattern.

  \<open>sur_text\<close> is the ASCII text
  \<^verbatim>\<open>{"1": {"class_type": "\ud800", "inputs": {}}}\<close>: valid JSON, an API graph whose
  \<open>class_type\<close> is the lone surrogate U+D800, held in \<open>sur_doc\<close> as the three bytes
  \<open>ED A0 80\<close>.
\<close>

definition api_text :: string where
  \<open>api_text = ''{"1": {"class_type": "KSampler", "inputs": {}}}''\<close>

definition api_doc :: json where
  "api_doc = JDict [(''1'', JDict [(''class_type'', JStr ''KSampler''), (''inputs'', JDict [])])]"

definition ui_text :: string where
  \<open>ui_text = ''{"nodes": [], "links": []}''\<close>

definition ui_doc :: json where
  "ui_doc = JDict [(''nodes'', JList []), (''links'', JList [])]"

definition meta_text :: string where
  \<open>meta_text = ''{"cvb_meta": "v2", "nodes": []}''\<close>

definition meta_doc :: json where
  "meta_doc = JDict [(''cvb_meta'', JStr ''v2''), (''nodes'', JList [])]"

definition bad_text :: string where
  "bad_text = ''{oops''"

definition api_pretty :: string where
  \<open>api_pretty =
     ''{'' @ [CHR 0x0A] @
     ''  "1": {'' @ [CHR 0x0A] @
     ''    "class_type": "KSampler",'' @ [CHR 0x0A] @
     ''    "inputs": {}'' @ [CHR 0x0A] @
     ''  }'' @ [CHR 0x0A] @
     ''}''\<close>

definition sur_text :: string where
  \<open>sur_text = ''{"1": {"class_type": "'' @ [CHR 0x5C] @ ''ud800", "inputs": {}}}''\<close>

definition sur_doc :: json where
  "sur_doc =
     JDict [(''1'', JDict [(''class_type'', JStr [CHR 0xED, CHR 0xA0, CHR 0x80]),
                           (''inputs'', JDict [])])]"

definition sur_pretty :: string where
  \<open>sur_pretty =
     ''{'' @ [CHR 0x0A] @
     ''  "1": {'' @ [CHR 0x0A] @
     ''    "class_type": "'' @ [CHR 0xED, CHR 0xA0, CHR 0x80] @ ''",'' @ [CHR 0x0A] @
     ''    "inputs": {}'' @ [CHR 0x0A] @
     ''  }'' @ [CHR 0x0A] @
     ''}''\<close>

definition sur_message :: string where
  "sur_message =
     [CHR 0x27] @ ''utf-8'' @ [CHR 0x27] @ '' codec can'' @ [CHR 0x27] @ ''t encode character '' @
     [CHR 0x27, CHR 0x5C] @ ''ud800'' @ [CHR 0x27] @ '' in position 30: surrogates not allowed''"

definition demo_loads :: "string \<Rightarrow> exn + json" where
  "demo_loads t =
     (if t = api_text \<or> t = api_pretty then Inr api_doc
      else if t = sur_text then Inr sur_doc
      else if t = ui_text then Inr ui_doc
      else if t = meta_text then Inr meta_doc
      else Inl (JSONDecodeError
                  ''Expecting property name enclosed in double quotes: line 1 column 2 (char 1)''))"

definition demo_dumps :: "json \<Rightarrow> exn + string" where
  "demo_dumps d =
     (if d = api_doc then Inr api_pretty
      else if d = sur_doc then Inr sur_pretty
      else Inr ''null'')"

definition demo_utf8_error :: "string \<Rightarrow> string option" where
  "demo_utf8_error s = (if s = sur_pretty then Some sur_message else None)"

definition demo_os_refuses :: "path \<Rightarrow> exn option" where
  "demo_os_refuses p =
     (if list_ex (\<lambda>c. 255 < length c) p then Some (OSError ''[Errno 36] File name too long'')
      else None)"

definition demo_glob_error :: "string \<Rightarrow> exn option" where
  "demo_glob_error pat =
     (if pat = [] then Some (ValueError (''Unacceptable pattern: '' @ [CHR 0x27, CHR 0x27]))
      else None)"

definition ascii_upper :: "char \<Rightarrow> char" where
  "ascii_upper c =
     (case map_of (zip ''abcdefghijklmnopqrstuvwxyz'' ''ABCDEFGHIJKLMNOPQRSTUVWXYZ'') c of
        Some u \<Rightarrow> u
      | None \<Rightarrow> c)"

fun title_from :: "bool \<Rightarrow> string \<Rightarrow> string" where
  "title_from prev [] = []"
| "title_from prev (c # cs) =
     (if ascii_upper c \<noteq> c \<or> ascii_lower c \<noteq> c
      then (if prev then ascii_lower c else ascii_upper c) # title_from True cs
      else c # title_from False cs)"

definition ascii_title :: "string \<Rightarrow> string" where
  "ascii_title s = title_from False s"

definition demo_fnmatch :: "string \<Rightarrow> path \<Rightarrow> bool" where
  "demo_fnmatch pat rel =
     (pat = ''*.json'' \<and> (case rel of [n] \<Rightarrow> endswith n ''.json'' | _ \<Rightarrow> False))"

definition demo_lib :: lib where
  "demo_lib =
     \<lparr>loads = demo_loads, dumps = demo_dumps, utf8_error = demo_utf8_error,
      os_refuses = demo_os_refuses, str_title = ascii_title, fnmatch = demo_fnmatch, glob_error = demo_glob_error\<rparr>"

text \<open>
  The workflows directory \<open>w\<close>: a UI workflow \<open>a.json\<close> whose companion \<open>a.api.json\<close>
  is not valid JSON, an API graph \<open>g.json\<close>, a UI workflow \<open>m.json\<close> whose
  \<open>cvb_meta\<close> is a string, and the directory \<open>d.json\<close>.
\<close>

definition demo_fs :: fs where
  "demo_fs =
     [([''w''], Dir),
      ([''w'', ''a.json''], File (Inr ui_text)),
      ([''w'', ''a.api.json''], File (Inr bad_text)),
      ([''w'', ''g.json''], File (Inr api_text)),
      ([''w'', ''m.json''], File (Inr meta_text)),
      ([''w'', ''d.json''], Dir)]"

text \<open>
  A source directory \<open>w\<close> with an API graph, a UI workflow and a file that is not
  valid JSON; the same beside a destination directory \<open>out\<close> that holds
  \<open>g.api.json\<close> already; the same again with \<open>sur_text\<close> as the API graph; and a
  directory whose only file is an API graph named \<open>g.api.json\<close>.
\<close>

definition demo_src :: fs where
  "demo_src =
     [([''w''], Dir),
      ([''w'', ''g.json''], File (Inr api_text)),
      ([''w'', ''u.json''], File (Inr ui_text)),
      ([''w'', ''bad.json''], File (Inr bad_text))]"

definition demo_src_out :: fs where
  "demo_src_out = demo_src @ [([''out''], Dir), ([''out'', ''g.api.json''], File (Inr ''old''))]"

definition demo_sur :: fs where
  "demo_sur =
     [([''w''], Dir),
      ([''w'', ''s.json''], File (Inr sur_text)),
      ([''w'', ''u.json''], File (Inr ui_text)),
      ([''w'', ''bad.json''], File (Inr bad_text))]"

definition demo_inplace :: fs where
  "demo_inplace = [([''w''], Dir), ([''w'', ''g.api.json''], File (Inr api_text))]"

section \<open>The classifier agrees with its specification\<close>

lemma dict_items_iff: "(k, v) \<in> set (dict_items m) \<longleftrightarrow> map_of m k = Some v"
  by (auto simp: dict_items_def dest: map_of_SomeD)

lemma node_like_iff:
  "isinstance_dict v \<and> has_key ''class_type'' v \<and> has_key ''inputs'' v \<longleftrightarrow>
   (\<exists>vm. v = JDict vm \<and> map_of vm ''class_type'' \<noteq> None \<and> map_of vm ''inputs'' \<noteq> None)"
  by (cases v) auto

lemma isinstance_list_iff: "isinstance_list v \<longleftrightarrow> (\<exists>xs. v = JList xs)"
  by (cases v) auto

lemma nodes_list_iff:
  "has_key ''nodes'' (JDict m) \<and> isinstance_list (py_get (JDict m) ''nodes'') \<longleftrightarrow>
   (\<exists>xs. map_of m ''nodes'' = Some (JList xs))"
  by (auto simp: dict_get_def isinstance_list_iff split: option.splits)

lemma is_api_graph_dict:
  "is_api_graph (JDict m) \<longleftrightarrow>
     (\<nexists>xs. map_of m ''nodes'' = Some (JList xs)) \<and>
     (\<exists>k v. map_of m k = Some v \<and> isinstance_dict v \<and> has_key ''class_type'' v \<and> has_key ''inputs'' v)"
proof (cases "\<exists>xs. map_of m ''nodes'' = Some (JList xs)")
  case True
  then show ?thesis
    by (simp add: is_api_graph_def nodes_list_iff del: has_key.simps py_get.simps)
next
  case False
  then have "is_api_graph (JDict m) \<longleftrightarrow>
      list_ex (\<lambda>(k, v). isinstance_str k \<and> isinstance_dict v \<and>
                          has_key ''class_type'' v \<and> has_key ''inputs'' v)
        (dict_items m)"
    by (simp add: is_api_graph_def nodes_list_iff del: has_key.simps py_get.simps)
  also have "\<dots> \<longleftrightarrow>
      (\<exists>k v. map_of m k = Some v \<and> isinstance_dict v \<and> has_key ''class_type'' v \<and> has_key ''inputs'' v)"
    unfolding list_ex_iff isinstance_str_def using dict_items_iff [of _ _ m] by fastforce
  finally show ?thesis using False by simp
qed

lemma is_api_graph_not_dict: "\<not> isinstance_dict d \<Longrightarrow> \<not> is_api_graph d"
  by (simp add: is_api_graph_def)

text \<open>
  C1. For every JSON value \<open>d\<close> the classifier \<open>is_api_graph\<close> equals the reference
  definition of the specification: false when \<open>d\<close> is not a mapping, false when \<open>d\<close> is a
  mapping whose key \<open>nodes\<close> holds a sequence (whatever else it holds), and otherwise true
  exactly when an entry of the mapping has a mapping value with both a \<open>class_type\<close> and
  an \<open>inputs\<close> key.
\<close>

theorem is_api_graph_refines_spec: "is_api_graph d = isApiGraph_spec d"
proof (cases d)
  case (JDict m)
  show ?thesis
    unfolding JDict is_api_graph_dict isApiGraph_spec_def
    using node_like_iff by auto
qed (simp_all add: is_api_graph_def isApiGraph_spec_def)

section \<open>Single retrieval\<close>

lemma lower_raw: "lower ''raw'' = ''raw''"
  by (simp add: lower_def ascii_lower_def)

lemma lower_api: "lower ''api'' = ''api''"
  by (simp add: lower_def ascii_lower_def)

lemma is_file_exists: "is_file fs p \<Longrightarrow> path_exists fs p"
  by (auto simp: is_file_def path_exists_def split: option.splits)

text \<open>What \<open>get_workflow\<close> answers once the file is there, read and parsed.\<close>

lemma get_workflow_readable:
  assumes "is_file fs (pjoin wdir (path_name nm))"
    and "suffix_of (name_of (pjoin wdir (path_name nm))) = ''.json''"
    and "read_text fs (pjoin wdir (path_name nm)) = Inr text"
    and "loads L text = Inr data"
  shows "get_workflow L fs wdir nm q =
     (let fmt = lower (case q of None \<Rightarrow> ''raw'' | Some f \<Rightarrow> f)
      in if fmt = ''raw'' then json_ok text
         else if fmt = ''api'' then (if is_api_graph data then json_ok text else ui_not_api)
         else bad_format)"
  using assms is_file_exists [OF assms(1)] by (simp add: get_workflow_def Let_def)

text \<open>
  C2, as the code has it. For every file of the workflows directory that exists, is a
  regular file, has the suffix \<open>.json\<close>, whose text can be read \<^emph>\<open>and parses as JSON\<close>,
  \<open>get_workflow\<close> with format \<open>raw\<close> (or with no format) answers 200 with the literal
  text of the file, whatever the shape of the parsed document.
\<close>

theorem get_workflow_raw_parsed:
  assumes "is_file fs (pjoin wdir (path_name nm))"
    and "suffix_of (name_of (pjoin wdir (path_name nm))) = ''.json''"
    and "read_text fs (pjoin wdir (path_name nm)) = Inr text"
    and "loads L text = Inr data"
  shows "get_workflow L fs wdir nm (Some ''raw'') =
           \<lparr>status = 200, body = text, content_type = ''application/json'',
            headers = [(''Access-Control-Allow-Origin'', ''*'')]\<rparr>
         \<and> get_workflow L fs wdir nm None = get_workflow L fs wdir nm (Some ''raw'')"
  by (simp add: get_workflow_readable [OF assms] lower_raw json_ok_def cors_def)

text \<open>The UI workflow \<open>a.json\<close> of the demo directory is served raw.\<close>

theorem get_workflow_raw_parsed_witness:
  "is_file demo_fs (pjoin [''w''] (path_name ''a.json''))
   \<and> is_api_graph ui_doc = False
   \<and> get_workflow demo_lib demo_fs [''w''] ''a.json'' (Some ''raw'') =
       \<lparr>status = 200, body = ui_text, content_type = ''application/json'',
        headers = [(''Access-Control-Allow-Origin'', ''*'')]\<rparr>"
proof -
  have 1: "is_file demo_fs (pjoin [''w''] (path_name ''a.json''))" by code_simp
  have 2: "suffix_of (name_of (pjoin [''w''] (path_name ''a.json''))) = ''.json''" by code_simp
  have 3: "read_text demo_fs (pjoin [''w''] (path_name ''a.json'')) = Inr ui_text" by code_simp
  have 4: "loads demo_lib ui_text = Inr ui_doc" by code_simp
  have 5: "is_api_graph ui_doc = False" by code_simp
  from get_workflow_raw_parsed [OF 1 2 3 4] 1 5 show ?thesis by simp
qed

text \<open>
  C2 as stated fails: \<open>a.api.json\<close> exists, is a regular file with the suffix \<open>.json\<close>
  and its text \<open>{oops\<close> is read, but the text is parsed before the format is looked at,
  and the answer to format \<open>raw\<close> is the 500 response, not the text.
\<close>

theorem get_workflow_raw_invalid_json:
  "is_file demo_fs [''w'', ''a.api.json'']
   \<and> suffix_of ''a.api.json'' = ''.json''
   \<and> read_text demo_fs [''w'', ''a.api.json''] = Inr ''{oops''
   \<and> status (get_workflow demo_lib demo_fs [''w''] ''a.api.json'' (Some ''raw'')) = 500
   \<and> body (get_workflow demo_lib demo_fs [''w''] ''a.api.json'' (Some ''raw'')) =
       ''Failed to read workflow: Expecting property name enclosed in double quotes: line 1 column 2 (char 1)''"
  by code_simp

text \<open>
  C5, as the code has it. For every existing regular \<open>.json\<close> file whose text parses,
  \<open>get_workflow\<close> with format \<open>api\<close> answers 200 with the literal text when the
  classifier holds of the document, and otherwise 422 with the text
  \<open>Workflow is a UI workflow, not an API graph. Export API (JSON) and save as .api.json.\<close>
  and nothing of the document.
\<close>

theorem get_workflow_api_parsed:
  assumes "is_file fs (pjoin wdir (path_name nm))"
    and "suffix_of (name_of (pjoin wdir (path_name nm))) = ''.json''"
    and "read_text fs (pjoin wdir (path_name nm)) = Inr text"
    and "loads L text = Inr data"
  shows "get_workflow L fs wdir nm (Some ''api'') =
           (if is_api_graph data
            then \<lparr>status = 200, body = text, content_type = ''application/json'',
                  headers = [(''Access-Control-Allow-Origin'', ''*'')]\<rparr>
            else \<lparr>status = 422,
                  body = ''Workflow is a UI workflow, not an API graph. Export API (JSON) and save as .api.json.'',
                  content_type = ''text/plain'',
                  headers = [(''Access-Control-Allow-Origin'', ''*'')]\<rparr>)"
  by (simp add: get_workflow_readable [OF assms] lower_api json_ok_def ui_not_api_def cors_def)

text \<open>The API graph \<open>g.json\<close> of the demo directory is served in API form.\<close>

theorem get_workflow_api_parsed_witness:
  "is_file demo_fs (pjoin [''w''] (path_name ''g.json''))
   \<and> is_api_graph api_doc
   \<and> get_workflow demo_lib demo_fs [''w''] ''g.json'' (Some ''api'') =
       \<lparr>status = 200, body = api_text, content_type = ''application/json'',
        headers = [(''Access-Control-Allow-Origin'', ''*'')]\<rparr>"
proof -
  have 1: "is_file demo_fs (pjoin [''w''] (path_name ''g.json''))" by code_simp
  have 2: "suffix_of (name_of (pjoin [''w''] (path_name ''g.json''))) = ''.json''" by code_simp
  have 3: "read_text demo_fs (pjoin [''w''] (path_name ''g.json'')) = Inr api_text" by code_simp
  have 4: "loads demo_lib api_text = Inr api_doc" by code_simp
  have 5: "is_api_graph api_doc" by code_simp
  from get_workflow_api_parsed [OF 1 2 3 4] 1 5 show ?thesis by simp
qed

text \<open>
  C5 as stated fails on the wording of the instruction: for the UI workflow \<open>a.json\<close>
  the answer is 422, and its text is not the sentence the claim quotes.
\<close>

theorem get_workflow_api_ui_message:
  "is_file demo_fs [''w'', ''a.json'']
   \<and> read_text demo_fs [''w'', ''a.json''] = Inr ui_text
   \<and> loads demo_lib ui_text = Inr ui_doc
   \<and> is_api_graph ui_doc = False
   \<and> status (get_workflow demo_lib demo_fs [''w''] ''a.json'' (Some ''api'')) = 422
   \<and> body (get_workflow demo_lib demo_fs [''w''] ''a.json'' (Some ''api'')) \<noteq>
       ''Workflow is a UI workflow, not an API graph. Export API and save as *.api.json.''"
  by code_simp

text \<open>
  C9. For every existing \<open>.json\<close> file whose text parses, a format whose lower-cased
  form is \<open>raw\<close> is answered as \<open>raw\<close> is, one whose lower-cased form is \<open>api\<close> as
  \<open>api\<close> is, and the answer is 400 exactly when the lower-cased form is neither.
\<close>

theorem get_workflow_format_lower:
  assumes "is_file fs (pjoin wdir (path_name nm))"
    and "suffix_of (name_of (pjoin wdir (path_name nm))) = ''.json''"
    and "read_text fs (pjoin wdir (path_name nm)) = Inr text"
    and "loads L text = Inr data"
  shows "(lower f = ''raw'' \<longrightarrow>
            get_workflow L fs wdir nm (Some f) = get_workflow L fs wdir nm (Some ''raw''))
       \<and> (lower f = ''api'' \<longrightarrow>
            get_workflow L fs wdir nm (Some f) = get_workflow L fs wdir nm (Some ''api''))
       \<and> (status (get_workflow L fs wdir nm (Some f)) = 400 \<longleftrightarrow>
            lower f \<noteq> ''raw'' \<and> lower f \<noteq> ''api'')"
  by (auto simp add: get_workflow_readable [OF assms] lower_api lower_raw json_ok_def
      ui_not_api_def bad_format_def Let_def)

text \<open>\<open>RAW\<close>, \<open>Api\<close> and \<open>yaml\<close> on the API graph \<open>g.json\<close>.\<close>

theorem get_workflow_format_lower_witness:
  "lower ''RAW'' = ''raw'' \<and> lower ''Api'' = ''api'' \<and> lower ''yaml'' = ''yaml''
   \<and> get_workflow demo_lib demo_fs [''w''] ''g.json'' (Some ''RAW'') =
       get_workflow demo_lib demo_fs [''w''] ''g.json'' (Some ''raw'')
   \<and> get_workflow demo_lib demo_fs [''w''] ''g.json'' (Some ''Api'') =
       get_workflow demo_lib demo_fs [''w''] ''g.json'' (Some ''api'')
   \<and> status (get_workflow demo_lib demo_fs [''w''] ''g.json'' (Some ''yaml'')) = 400"
proof -
  have 1: "is_file demo_fs (pjoin [''w''] (path_name ''g.json''))" by code_simp
  have 2: "suffix_of (name_of (pjoin [''w''] (path_name ''g.json''))) = ''.json''" by code_simp
  have 3: "read_text demo_fs (pjoin [''w''] (path_name ''g.json'')) = Inr api_text" by code_simp
  have 4: "loads demo_lib api_text = Inr api_doc" by code_simp
  have 5: "lower ''RAW'' = ''raw''" "lower ''Api'' = ''api''" "lower ''yaml'' = ''yaml''"
    by code_simp+
  from get_workflow_format_lower [OF 1 2 3 4, of "''RAW''"]
       get_workflow_format_lower [OF 1 2 3 4, of "''Api''"]
       get_workflow_format_lower [OF 1 2 3 4, of "''yaml''"] 5
  show ?thesis by simp
qed

section \<open>The final path component\<close>

lemma split_sep_nonempty: "split_sep s \<noteq> []"
  by (induction s) (auto split: list.splits)


lemma split_sep_single: "CHR ''/'' \<notin> set w \<Longrightarrow> split_sep w = [w]"
  by (induction w) auto





lemma walk_append:
  "walk fs cur (xs @ ys) = (case walk fs cur xs of None \<Rightarrow> None | Some q \<Rightarrow> walk fs q ys)"
  by (induction xs arbitrary: cur) auto







section \<open>The listing\<close>

lemma meta_from_keys:
  assumes "meta_from L n d = Inr meta"
  shows "\<exists>a b c t v. meta =
     [(''id'', a), (''title'', b), (''description'', c), (''tags'', t), (''version'', v)]"
  using assms by (auto simp: meta_from_def Let_def split: json.splits)

lemma meta_from_not_dict:
  assumes "map_of m ''cvb_meta'' = Some v" and "truthy v" and "\<not> isinstance_dict v"
  shows "meta_from L n (JDict m) = Inl (no_attribute_get v)"
  using assms by (cases v) (auto simp: meta_from_def dict_get_def py_or_def)

lemma list_entry_filename:
  "map_of (list_entry L fs wdir names n) ''filename'' = Some (JStr n)"
proof (cases "load_json L fs (wdir @ [n])")
  case (Inl e)
  then show ?thesis by (simp add: list_entry_def error_entry_def)
next
  case (Inr data)
  show ?thesis
  proof (cases "meta_from L n data")
    case (Inl e)
    with Inr show ?thesis by (simp add: list_entry_def error_entry_def)
  next
    case meta: (Inr meta)
    from meta_from_keys [OF meta] obtain a b c t v where
      "meta = [(''id'', a), (''title'', b), (''description'', c), (''tags'', t), (''version'', v)]"
      by blast
    with Inr meta show ?thesis by (simp add: list_entry_def Let_def)
  qed
qed

lemma list_entry_bad_meta:
  assumes "load_json L fs (wdir @ [n]) = Inr (JDict m)"
    and "map_of m ''cvb_meta'' = Some v" and "truthy v" and "\<not> isinstance_dict v"
  shows "list_entry L fs wdir names n = error_entry n (no_attribute_get v)"
  using assms(1) meta_from_not_dict [OF assms(2-4)] by (simp add: list_entry_def)

text \<open>
  C10. A listed file that is valid JSON, a mapping whose \<open>cvb_meta\<close> is truthy and not
  a mapping, has an entry in the listing, and every entry under its file name is the
  degraded one: \<open>error\<close> true, \<open>is_api\<close> false, a description that begins
  \<open>Failed to parse:\<close> and goes on with the message of the \<^verbatim>\<open>AttributeError\<close> that
  \<^verbatim>\<open>meta.get\<close> raised, the stem as title, and no \<open>tags\<close> or \<open>version\<close>.
\<close>

theorem list_workflows_bad_meta:
  assumes "n \<in> set (list_files fs wdir)"
    and "load_json L fs (wdir @ [n]) = Inr (JDict m)"
    and "map_of m ''cvb_meta'' = Some v" and "truthy v" and "\<not> isinstance_dict v"
  shows "(\<exists>e \<in> set (list_workflows L fs wdir). map_of e ''filename'' = Some (JStr n))
       \<and> (\<forall>e \<in> set (list_workflows L fs wdir).
            map_of e ''filename'' = Some (JStr n) \<longrightarrow>
              map_of e ''error'' = Some (JBool True)
            \<and> map_of e ''is_api'' = Some (JBool False)
            \<and> map_of e ''description'' =
                Some (JStr (''Failed to parse: '' @ str_exn (no_attribute_get v)))
            \<and> map_of e ''title'' = Some (JStr (stem_of n))
            \<and> map_of e ''tags'' = None \<and> map_of e ''version'' = None)"
proof (intro conjI ballI impI)
  show "\<exists>e \<in> set (list_workflows L fs wdir). map_of e ''filename'' = Some (JStr n)"
    using assms(1) list_entry_filename [of L fs wdir "list_files fs wdir" n]
    by (auto simp: list_workflows_def Let_def)
next
  fix e
  assume e: "e \<in> set (list_workflows L fs wdir)" and f: "map_of e ''filename'' = Some (JStr n)"
  from e obtain n' where n': "e = list_entry L fs wdir (list_files fs wdir) n'"
    by (auto simp: list_workflows_def Let_def)
  with f list_entry_filename [of L fs wdir "list_files fs wdir" n'] have "n' = n" by simp
  then have ee: "e = error_entry n (no_attribute_get v)"
    using n' list_entry_bad_meta [OF assms(2-5)] by simp
  show "map_of e ''error'' = Some (JBool True)" by (simp add: ee error_entry_def)
  show "map_of e ''is_api'' = Some (JBool False)" by (simp add: ee error_entry_def)
  show "map_of e ''description'' =
          Some (JStr (''Failed to parse: '' @ str_exn (no_attribute_get v)))"
    by (simp add: ee error_entry_def)
  show "map_of e ''title'' = Some (JStr (stem_of n))" by (simp add: ee error_entry_def)
  show "map_of e ''tags'' = None" by (simp add: ee error_entry_def)
  show "map_of e ''version'' = None" by (simp add: ee error_entry_def)
qed

text \<open>The file \<open>m.json\<close> of the demo directory, whose \<open>cvb_meta\<close> is a string.\<close>

theorem list_workflows_bad_meta_witness:
  "''m.json'' \<in> set (list_files demo_fs [''w''])
   \<and> load_json demo_lib demo_fs [''w'', ''m.json''] =
       Inr (JDict [(''cvb_meta'', JStr ''v2''), (''nodes'', JList [])])
   \<and> truthy (JStr ''v2'')
   \<and> (\<exists>e \<in> set (list_workflows demo_lib demo_fs [''w'']).
        map_of e ''filename'' = Some (JStr ''m.json'')
        \<and> map_of e ''error'' = Some (JBool True)
        \<and> map_of e ''is_api'' = Some (JBool False)
        \<and> map_of e ''description'' =
            Some (JStr (''Failed to parse: '' @ [CHR 0x27] @ ''str'' @ [CHR 0x27] @
                        '' object has no attribute '' @ [CHR 0x27] @ ''get'' @ [CHR 0x27])))"
proof -
  have 1: "''m.json'' \<in> set (list_files demo_fs [''w''])" by code_simp
  have 2: "load_json demo_lib demo_fs ([''w''] @ [''m.json'']) =
       Inr (JDict [(''cvb_meta'', JStr ''v2''), (''nodes'', JList [])])" by code_simp
  have 3: "map_of [(''cvb_meta'', JStr ''v2''), (''nodes'', JList [])] ''cvb_meta'' = Some (JStr ''v2'')"
    by simp
  have 4: "truthy (JStr ''v2'')" by simp
  have 5: "\<not> isinstance_dict (JStr ''v2'')" by simp
  have 6: "str_exn (no_attribute_get (JStr ''v2'')) =
      [CHR 0x27] @ ''str'' @ [CHR 0x27] @ '' object has no attribute '' @ [CHR 0x27] @ ''get'' @ [CHR 0x27]"
    by (simp add: no_attribute_get_def)
  from list_workflows_bad_meta [OF 1 2 3 4 5] 1 2 4 6 show ?thesis
    by (metis append_Cons append_Nil)
qed

text \<open>
  The companion of a UI workflow. When the companion loads, \<open>is_api\<close> is set whatever
  the companion holds; when loading it raises, the assignment is never reached and
  \<open>is_api\<close> stays false, while \<open>template_url\<close> points at the companion all the same.
\<close>

lemma list_entry_companion_loaded:
  assumes "load_json L fs (wdir @ [n]) = Inr data" and "meta_from L n data = Inr meta"
    and "\<not> is_api_graph data" and "\<not> endswith (stem_of n) ''.api''"
    and "stem_of n @ ''.api.json'' \<in> set names"
    and "load_json L fs (wdir @ [stem_of n @ ''.api.json'']) = Inr d"
  shows "list_entry L fs wdir names n = meta @
      [(''filename'', JStr n), (''is_api'', JBool True),
       (''raw_url'', JStr (''/cvb/workflows/'' @ n @ ''?format=raw'')),
       (''template_url'', JStr (''/cvb/workflows/'' @ stem_of n @ ''.api.json'' @ ''?format=api''))]"
  using assms by (simp add: list_entry_def Let_def)

lemma list_entry_companion_unreadable:
  assumes "load_json L fs (wdir @ [n]) = Inr data" and "meta_from L n data = Inr meta"
    and "\<not> is_api_graph data" and "\<not> endswith (stem_of n) ''.api''"
    and "stem_of n @ ''.api.json'' \<in> set names"
    and "load_json L fs (wdir @ [stem_of n @ ''.api.json'']) = Inl e"
  shows "list_entry L fs wdir names n = meta @
      [(''filename'', JStr n), (''is_api'', JBool False),
       (''raw_url'', JStr (''/cvb/workflows/'' @ n @ ''?format=raw'')),
       (''template_url'', JStr (''/cvb/workflows/'' @ stem_of n @ ''.api.json'' @ ''?format=api''))]"
  using assms by (simp add: list_entry_def Let_def)

text \<open>
  C3 at the input where the code departs from it. In the demo directory \<open>a.json\<close> is a
  UI workflow whose stem does not end in \<open>.api\<close>, and \<open>a.api.json\<close> is listed beside it
  but is not valid JSON. The entry of \<open>a.json\<close> (the second of the listing) points its
  \<open>template_url\<close> at \<open>a.api.json\<close> and has \<open>is_api\<close> false.
\<close>

theorem list_workflows_companion_invalid:
  "list_files demo_fs [''w''] = [''a.api.json'', ''a.json'', ''g.json'', ''m.json'']
   \<and> load_json demo_lib demo_fs [''w'', ''a.json''] = Inr ui_doc
   \<and> is_api_graph ui_doc = False
   \<and> endswith (stem_of ''a.json'') ''.api'' = False
   \<and> load_json demo_lib demo_fs [''w'', ''a.api.json''] =
       Inl (JSONDecodeError
              ''Expecting property name enclosed in double quotes: line 1 column 2 (char 1)'')
   \<and> list_workflows demo_lib demo_fs [''w''] ! 1 =
       [(''id'', JStr ''a''), (''title'', JStr ''A''), (''description'', JStr []),
        (''tags'', JList []), (''version'', JStr ''1''), (''filename'', JStr ''a.json''),
        (''is_api'', JBool False),
        (''raw_url'', JStr ''/cvb/workflows/a.json?format=raw''),
        (''template_url'', JStr ''/cvb/workflows/a.api.json?format=api'')]"
  by code_simp

section \<open>The file system under the exporter\<close>

lemma walk_lnorm: "walk fs cur p = Some q \<Longrightarrow> q = lnorm cur p"
  by (induction p arbitrary: cur) (auto split: if_splits)

lemma lnorm_append: "lnorm cur (xs @ ys) = lnorm (lnorm cur xs) ys"
  by (induction xs arbitrary: cur) auto

lemma resolve_child_norm:
  "resolve fs (d @ [n]) = Some q \<Longrightarrow> n \<noteq> ''..'' \<Longrightarrow> q = norm_path d @ [n]"
  by (auto simp: resolve_def norm_path_def lnorm_append dest!: walk_lnorm)

lemma extends_refl: "extends_files fs fs"
  by (simp add: extends_files_def)

lemma extends_trans: "extends_files a b \<Longrightarrow> extends_files b c \<Longrightarrow> extends_files a c"
  unfolding extends_files_def by metis

lemma extends_dir_key: "extends_files fs fs' \<Longrightarrow> is_dir_key fs' k = is_dir_key fs k"
  unfolding extends_files_def is_dir_key_def by (metis option.distinct(1))

lemma extends_walk: "extends_files fs fs' \<Longrightarrow> walk fs' cur p = walk fs cur p"
  by (induction p arbitrary: cur) (auto simp: extends_dir_key)

lemma extends_resolve: "extends_files fs fs' \<Longrightarrow> resolve fs' p = resolve fs p"
  by (simp add: resolve_def extends_walk)

lemma extends_stat: "extends_files fs fs' \<Longrightarrow> stat fs p = Some n \<Longrightarrow> stat fs' p = Some n"
  unfolding stat_def extends_resolve
  by (auto simp: extends_files_def split: option.splits if_splits)

lemma extends_exists: "extends_files fs fs' \<Longrightarrow> path_exists fs p \<Longrightarrow> path_exists fs' p"
  by (auto simp: path_exists_def dest: extends_stat)

lemma extends_is_file:
  "extends_files fs fs' \<Longrightarrow> path_exists fs p \<Longrightarrow> is_file fs' p = is_file fs p"
  by (auto simp: path_exists_def is_file_def dest: extends_stat)

lemma extends_read_text:
  "extends_files fs fs' \<Longrightarrow> path_exists fs p \<Longrightarrow> read_text fs' p = read_text fs p"
  by (auto simp: path_exists_def read_text_def dest: extends_stat)

lemma extends_load_json:
  "extends_files fs fs' \<Longrightarrow> path_exists fs p \<Longrightarrow> load_json L fs' p = load_json L fs p"
  by (simp add: load_json_def extends_read_text)

lemma extends_api_file:
  "extends_files fs fs' \<Longrightarrow> path_exists fs p \<Longrightarrow> api_file L fs' p = api_file L fs p"
  by (simp add: api_file_def extends_load_json)

lemma write_text_frame:
  assumes "write_text L fs p s = (fs2, e)" and "map_of fs k = Some n"
  shows "map_of fs2 k = Some n
       \<or> (\<exists>c t. n = File c \<and> resolve fs p = Some k \<and> map_of fs2 k = Some (File (Inr t)))"
proof (cases "resolve fs p")
  case None
  with assms show ?thesis by (simp add: write_text_def)
next
  case (Some q)
  show ?thesis
  proof (cases "is_dir_key fs q \<or> k \<noteq> q")
    case True
    with assms Some show ?thesis
      by (auto simp: write_text_def update_conv' split: option.splits if_splits)
  next
    case False
    then have kq: "k = q" and nd: "\<not> is_dir_key fs q" by auto
    from nd assms(2) kq obtain c where "n = File c"
      by (cases n) (auto simp: is_dir_key_def)
    moreover have "\<exists>t. map_of fs2 k = Some (File (Inr t))"
      using assms(1) Some nd kq
      by (auto simp: write_text_def update_conv' split: option.splits)
    ultimately show ?thesis using Some kq by auto
  qed
qed

lemma update_new_extends: "map_of fs q = None \<Longrightarrow> extends_files fs (AList.update q (File c) fs)"
  by (auto simp: extends_files_def update_conv')

lemma write_text_new_ok:
  assumes "\<not> path_exists fs p" and "resolve fs p = Some q" and "utf8_error L s = None"
  shows "\<exists>fs2. write_text L fs p s = (fs2, None) \<and> extends_files fs fs2
            \<and> map_of fs2 = (map_of fs)(q \<mapsto> File (Inr s))"
proof -
  from assms have none: "map_of fs q = None" and ne: "q \<noteq> []"
    by (auto simp: path_exists_def stat_def split: if_splits)
  then have nd: "\<not> is_dir_key fs q" by (simp add: is_dir_key_def)
  have "write_text L fs p s = (AList.update q (File (Inr s)) fs, None)"
    using nd assms(2,3) by (simp add: write_text_def)
  with update_new_extends [OF none] show ?thesis by (auto simp: update_conv')
qed

lemma write_text_new_fail:
  assumes "\<not> path_exists fs p" and "resolve fs p = Some q" and "utf8_error L s = Some msg"
  shows "\<exists>fs2. write_text L fs p s = (fs2, Some (UnicodeEncodeError msg)) \<and> extends_files fs fs2
            \<and> map_of fs2 = (map_of fs)(q \<mapsto> File (Inr []))"
proof -
  from assms have none: "map_of fs q = None" and ne: "q \<noteq> []"
    by (auto simp: path_exists_def stat_def split: if_splits)
  then have nd: "\<not> is_dir_key fs q" by (simp add: is_dir_key_def)
  have "write_text L fs p s = (AList.update q (File (Inr [])) fs, Some (UnicodeEncodeError msg))"
    using nd assms(2,3) by (simp add: write_text_def)
  with update_new_extends [OF none] show ?thesis by (auto simp: update_conv')
qed

lemma target_name_proper: "target_name n \<noteq> [] \<and> target_name n \<noteq> ''..''"
proof (cases "suffix_of (path_name n) = ''.json'' \<and> endswith (stem_of (path_name n)) ''.api''")
  case True
  then have "target_name n = path_name n" by (simp add: target_name_def)
  moreover from True have "path_name n \<noteq> [] \<and> path_name n \<noteq> ''..''"
    by (auto simp: suffix_of_def)
  ultimately show ?thesis by simp
next
  case False
  then have t: "target_name n = stem_of (path_name n) @ ''.api.json''"
    by (auto simp: target_name_def)
  have "length (target_name n) = length (stem_of (path_name n)) + 9"
    unfolding t by simp
  then have "length (target_name n) \<noteq> 0 \<and> length (target_name n) \<noteq> length ''..''"
    by simp
  then show ?thesis by fastforce
qed

lemma mkdirs_keeps:
  "mkdirs fs cur p = (fs1, e) \<Longrightarrow> map_of fs k = Some n \<Longrightarrow> map_of fs1 k = Some n"
proof (induction p arbitrary: fs cur)
  case Nil
  then show ?case by simp
next
  case (Cons c cs)
  show ?case
  proof (cases "c = ''..''")
    case True
    with Cons show ?thesis by simp
  next
    case False
    show ?thesis
    proof (cases "map_of fs (cur @ [c])")
      case None
      with Cons.prems(2) have "k \<noteq> cur @ [c]" by auto
      then have "map_of (AList.update (cur @ [c]) Dir fs) k = Some n"
        using Cons.prems(2) by (simp add: update_conv')
      moreover have "mkdirs (AList.update (cur @ [c]) Dir fs) (cur @ [c]) cs = (fs1, e)"
        using Cons.prems(1) False None by simp
      ultimately show ?thesis by (rule Cons.IH [rotated])
    next
      case (Some nd)
      with Cons False show ?thesis by (cases nd) (auto split: if_splits)
    qed
  qed
qed

lemma mkdirs_dir_key: "mkdirs fs cur p = (fs1, e) \<Longrightarrow> is_dir_key fs k \<Longrightarrow> is_dir_key fs1 k"
  by (auto simp: is_dir_key_def dest: mkdirs_keeps)

lemma mkdirs_resolves:
  "mkdirs fs cur p = (fs1, None) \<Longrightarrow> (\<forall>k. prefix k cur \<longrightarrow> is_dir_key fs k) \<Longrightarrow>
   \<exists>q. walk fs1 cur p = Some q \<and> is_dir_key fs1 q"
proof (induction p arbitrary: fs cur)
  case Nil
  then show ?case by auto
next
  case (Cons c cs)
  have cur: "is_dir_key fs1 cur"
    using Cons.prems mkdirs_dir_key [OF Cons.prems(1), of cur] by auto
  show ?case
  proof (cases "c = ''..''")
    case True
    have "\<forall>k. prefix k (butlast cur) \<longrightarrow> is_dir_key fs k"
      using Cons.prems(2) by (meson prefix_order.trans prefixeq_butlast)
    with Cons.IH [of fs "butlast cur"] Cons.prems(1) True cur show ?thesis by simp
  next
    case False
    show ?thesis
    proof (cases "map_of fs (cur @ [c])")
      case None
      let ?fs2 = "AList.update (cur @ [c]) Dir fs"
      have step: "mkdirs ?fs2 (cur @ [c]) cs = (fs1, None)"
        using Cons.prems(1) False None by simp
      have "\<forall>k. prefix k (cur @ [c]) \<longrightarrow> is_dir_key ?fs2 k"
        using Cons.prems(2) by (auto simp: is_dir_key_def update_conv')
      from Cons.IH [OF step this] cur False show ?thesis by simp
    next
      case (Some nd)
      show ?thesis
      proof (cases nd)
        case Dir
        have step: "mkdirs fs (cur @ [c]) cs = (fs1, None)"
          using Cons.prems(1) False Some Dir by simp
        have "\<forall>k. prefix k (cur @ [c]) \<longrightarrow> is_dir_key fs k"
          using Cons.prems(2) Some Dir by (auto simp: is_dir_key_def)
        from Cons.IH [OF step this] cur False show ?thesis by simp
      next
        case (File x)
        with Cons.prems(1) False Some show ?thesis by simp
      qed
    qed
  qed
qed

lemma mkdir_p_resolves:
  assumes "mkdir_p fs d = (fs1, None)"
  shows "\<exists>q. resolve fs1 d = Some q \<and> is_dir_key fs1 q"
  using mkdirs_resolves [of fs "[]" d fs1] assms
  by (simp add: mkdir_p_def resolve_def is_dir_key_def)

lemma mkdirs_noop:
  "walk fs cur p = Some q \<Longrightarrow> is_dir_key fs q \<Longrightarrow> mkdirs fs cur p = (fs, None)"
proof (induction p arbitrary: cur)
  case Nil
  then show ?case by simp
next
  case (Cons c cs)
  show ?case
  proof (cases "c = ''..''")
    case True
    with Cons show ?thesis by (auto split: if_splits)
  next
    case False
    with Cons.prems have w: "walk fs (cur @ [c]) cs = Some q"
      by (auto split: if_splits)
    have "is_dir_key fs (cur @ [c])"
      using w Cons.prems(2) by (cases cs) (auto split: if_splits)
    then have "map_of fs (cur @ [c]) = Some Dir" by (simp add: is_dir_key_def)
    with Cons.IH [OF w Cons.prems(2)] False show ?thesis by simp
  qed
qed

lemma mkdir_p_noop:
  "resolve fs d = Some q \<Longrightarrow> is_dir_key fs q \<Longrightarrow> mkdir_p fs d = (fs, None)"
  by (simp add: mkdir_p_def resolve_def mkdirs_noop)

lemma resolve_child:
  "resolve fs d = Some q \<Longrightarrow> is_dir_key fs q \<Longrightarrow> n \<noteq> ''..'' \<Longrightarrow>
   resolve fs (d @ [n]) = Some (q @ [n])"
  by (simp add: resolve_def walk_append)

lemma stat_in_dir:
  "resolve fs d = Some q \<Longrightarrow> is_dir_key fs q \<Longrightarrow> n \<noteq> ''..'' \<Longrightarrow>
   stat fs (d @ [n]) = map_of fs (q @ [n])"
  by (simp add: stat_def resolve_child)

lemma resolve_parent:
  assumes "resolve fs (d @ [n]) = Some k" and "n \<noteq> ''..''"
  shows "\<exists>q. resolve fs d = Some q \<and> is_dir_key fs q \<and> k = q @ [n]"
  using assms by (auto simp: resolve_def walk_append split: option.splits if_splits)

text \<open>
  The derived name of a plain file name: the name itself when its suffix is \<open>.json\<close>
  and its stem ends in \<open>.api\<close>, and the stem with \<open>.api.json\<close> otherwise.
\<close>

lemma target_name_plain:
  assumes "CHR ''/'' \<notin> set n" and "n \<noteq> []" and "n \<noteq> ''.''"
  shows "target_name n =
     (if suffix_of n = ''.json'' \<and> endswith (stem_of n) ''.api'' then n
      else stem_of n @ ''.api.json'')"
proof -
  have "path_name n = n"
    using assms split_sep_single [OF assms(1)] by (simp add: path_name_def path_parts_def)
  then show ?thesis by (simp add: target_name_def)
qed

lemma pjoin_target: "pjoin d (target_name n) = d @ [target_name n]"
  using target_name_proper [of n] by (simp add: pjoin_def)

section \<open>What the exporter leaves alone\<close>

lemma convert_files_frame:
  "convert_files L dst ow fs conv skip ps = (fs', r) \<Longrightarrow> map_of fs k = Some n \<Longrightarrow>
   map_of fs' k = Some n \<or> (ow \<and> changed_in_dest dst fs' k n)"
proof (induction ps arbitrary: fs conv skip n)
  case Nil
  then show ?case by simp
next
  case (Cons p ps)
  let ?out = "target_name (name_of p)"
  show ?case
  proof (cases "is_file fs p")
    case False
    with Cons show ?thesis by simp
  next
    case True
    show ?thesis
    proof (cases "load_json L fs p")
      case (Inl e)
      with Cons True show ?thesis by simp
    next
      case (Inr data)
      show ?thesis
      proof (cases "is_api_graph data")
        case False
        with Cons True Inr show ?thesis by simp
      next
        case api: True
        show ?thesis
        proof (cases "os_refuses L (dst @ [?out]) = None \<longrightarrow>
                      path_exists fs (dst @ [?out]) \<and> \<not> ow")
          case True
          show ?thesis
          proof (cases "os_refuses L (dst @ [?out])")
            case (Some x)
            with Cons.prems \<open>is_file fs p\<close> Inr api show ?thesis
              by (simp add: pjoin_target)
          next
            case None
            with True have "path_exists fs (dst @ [?out]) \<and> \<not> ow" by simp
            with Cons \<open>is_file fs p\<close> Inr api None show ?thesis
              by (simp add: pjoin_target)
          qed
        next
          case False
          then have acc: "os_refuses L (dst @ [?out]) = None"
            and go: "\<not> (path_exists fs (dst @ [?out]) \<and> \<not> ow)"
            by auto
          show ?thesis
          proof (cases "dumps L data")
            case (Inl e)
            with Cons.prems \<open>is_file fs p\<close> Inr api acc go show ?thesis
              by (simp add: pjoin_target)
          next
            case dumped: (Inr tx)
            obtain fs2 e where w: "write_text L fs (dst @ [?out]) tx = (fs2, e)"
              by (cases "write_text L fs (dst @ [?out]) tx")
            have after: "map_of fs2 k = Some n
               \<or> (ow \<and> (\<exists>c t. n = File c \<and> k = norm_path dst @ [?out]
                              \<and> map_of fs2 k = Some (File (Inr t))))"
            proof (cases "map_of fs2 k = Some n")
              case True
              then show ?thesis by simp
            next
              case False
              with write_text_frame [OF w Cons.prems(2)] obtain c t where
                ch: "n = File c" "resolve fs (dst @ [?out]) = Some k"
                    "map_of fs2 k = Some (File (Inr t))"
                by blast
              have kq: "k = norm_path dst @ [?out]"
                using resolve_child_norm [OF ch(2)] target_name_proper [of "name_of p"] by simp
              then have "stat fs (dst @ [?out]) = Some n"
                using ch(2) Cons.prems(2) by (simp add: stat_def)
              then have ow using go by (simp add: path_exists_def)
              with ch kq show ?thesis by blast
            qed
            show ?thesis
            proof (cases e)
              case (Some x)
              then have "fs' = fs2"
                using Cons.prems(1) \<open>is_file fs p\<close> Inr api acc go dumped w by (simp add: pjoin_target)
              with after show ?thesis by (auto simp: changed_in_dest_def)
            next
              case None
              have rest: "convert_files L dst ow fs2 (conv @ [?out]) skip ps = (fs', r)"
                using Cons.prems(1) \<open>is_file fs p\<close> Inr api acc go dumped w None
                by (simp add: pjoin_target)
              from after show ?thesis
              proof
                assume "map_of fs2 k = Some n"
                from Cons.IH [OF rest this] show ?thesis .
              next
                assume "ow \<and> (\<exists>c t. n = File c \<and> k = norm_path dst @ [?out]
                              \<and> map_of fs2 k = Some (File (Inr t)))"
                then obtain c t where ch: ow "n = File c" "k = norm_path dst @ [?out]"
                    "map_of fs2 k = Some (File (Inr t))"
                  by blast
                from Cons.IH [OF rest ch(4)]
                have "\<exists>s. map_of fs' k = Some (File (Inr s))"
                  by (auto simp: changed_in_dest_def)
                with ch show ?thesis by (auto simp: changed_in_dest_def)
              qed
            qed
          qed
        qed
      qed
    qed
  qed
qed

text \<open>
  C8, as the code has it. \<open>convert_all\<close> removes no entry of the file system, whether
  it returns or raises. An entry changes only when \<open>overwrite\<close> is set and the entry is
  a regular file directly inside the destination directory, and it is a regular file
  afterwards. So the files of the source directory are as they were whenever
  \<open>overwrite\<close> is not set, and whenever the destination directory is neither the source
  directory nor a directory below it.
\<close>

theorem convert_all_frame:
  assumes "convert_all L fs src dst ow pat = (fs', r)" and "map_of fs k = Some n"
  shows "(map_of fs' k = Some n \<or> (ow \<and> changed_in_dest dst fs' k n))
       \<and> (\<not> prefix (norm_path src) (norm_path dst) \<longrightarrow> strict_prefix (norm_path src) k \<longrightarrow>
            map_of fs' k = Some n)"
proof -
  obtain fs1 e where mk: "mkdir_p fs dst = (fs1, e)" by (cases "mkdir_p fs dst")
  have k1: "map_of fs1 k = Some n"
    using mk assms(2) mkdirs_keeps unfolding mkdir_p_def by blast
  have main: "map_of fs' k = Some n \<or> (ow \<and> changed_in_dest dst fs' k n)"
  proof (cases e)
    case (Some x)
    with assms(1) mk have "fs' = fs1" by (simp add: convert_all_def)
    with k1 show ?thesis by simp
  next
    case None
    show ?thesis
    proof (cases "glob_paths L fs1 src pat")
      case (Inl x)
      with assms(1) mk None have "fs' = fs1" by (simp add: convert_all_def)
      with k1 show ?thesis by simp
    next
      case (Inr paths)
      with assms(1) mk None have
        "convert_files L dst ow fs1 [] [] (sort paths) = (fs', r)"
        by (simp add: convert_all_def)
      from convert_files_frame [OF this k1] show ?thesis .
    qed
  qed
  moreover have "map_of fs' k = Some n"
    if "\<not> prefix (norm_path src) (norm_path dst)" "strict_prefix (norm_path src) k"
  proof (rule ccontr)
    assume "map_of fs' k \<noteq> Some n"
    with main obtain out where "k = norm_path dst @ [out]"
      by (auto simp: changed_in_dest_def)
    with that(2) have "prefix (norm_path src) (norm_path dst)"
      by (auto simp: strict_prefix_def)
    with that(1) show False by simp
  qed
  ultimately show ?thesis by blast
qed

section \<open>The loop of the exporter\<close>

lemma api_file_is_file: "api_file L fs p \<Longrightarrow> is_file fs p"
  by (auto simp: api_file_def load_json_def read_text_def is_file_def
      split: sum.splits option.splits node.splits)

lemma api_file_data: "api_file L fs p \<longleftrightarrow> (\<exists>d. load_json L fs p = Inr d \<and> is_api_graph d)"
  by (auto simp: api_file_def split: sum.splits)

lemma convert_files_step_skip:
  "\<not> api_file L fs p \<Longrightarrow>
   convert_files L dst ow fs conv skip (p # ps) =
     convert_files L dst ow fs conv (if is_file fs p then skip @ [name_of p] else skip) ps"
  by (auto simp: api_file_def split: sum.splits)

lemma convert_files_step_refused:
  assumes "api_file L fs p" and "os_refuses L (dst @ [target_name (name_of p)]) = Some e"
  shows "convert_files L dst ow fs conv skip (p # ps) = (fs, Inl e)"
  using assms api_file_is_file [OF assms(1)]
  by (auto simp: api_file_def pjoin_target split: sum.splits)

lemma convert_files_step_exists:
  assumes "api_file L fs p" and "os_refuses L (dst @ [target_name (name_of p)]) = None"
    and "path_exists fs (dst @ [target_name (name_of p)])"
  shows "convert_files L dst False fs conv skip (p # ps) =
         convert_files L dst False fs conv skip ps"
  using assms api_file_is_file [OF assms(1)]
  by (auto simp: api_file_def pjoin_target split: sum.splits)

lemma convert_files_step_write_ok:
  assumes "load_json L fs p = Inr d" and "is_api_graph d" and "write_error L d = None"
    and "\<not> path_exists fs (dst @ [target_name (name_of p)])"
    and "resolve fs dst = Some q" and "is_dir_key fs q"
    and "os_refuses L (dst @ [target_name (name_of p)]) = None"
  shows "\<exists>fs2 s. convert_files L dst ow fs conv skip (p # ps) =
            convert_files L dst ow fs2 (conv @ [target_name (name_of p)]) skip ps
          \<and> extends_files fs fs2
          \<and> map_of fs2 = (map_of fs)(q @ [target_name (name_of p)] \<mapsto> File (Inr s))"
proof -
  let ?out = "target_name (name_of p)"
  from assms(3) obtain tx where tx: "dumps L d = Inr tx" "utf8_error L tx = None"
    by (auto simp: write_error_def split: sum.splits option.splits)
  have f: "is_file fs p"
    using assms(1,2) by (intro api_file_is_file [of L]) (simp add: api_file_def)
  have r: "resolve fs (dst @ [?out]) = Some (q @ [?out])"
    using resolve_child [OF assms(5,6)] target_name_proper [of "name_of p"] by simp
  from write_text_new_ok [OF assms(4) r tx(2)] obtain fs2 where
    "write_text L fs (dst @ [?out]) tx = (fs2, None)" "extends_files fs fs2"
    "map_of fs2 = (map_of fs)(q @ [?out] \<mapsto> File (Inr tx))"
    by blast
  then show ?thesis
    using assms(1,2,4,7) f tx(1) by (auto simp: pjoin_target)
qed

lemma convert_files_step_write_fail:
  assumes "load_json L fs p = Inr d" and "is_api_graph d" and "write_error L d = Some e"
    and "\<not> path_exists fs (dst @ [target_name (name_of p)])"
    and "resolve fs dst = Some q" and "is_dir_key fs q"
    and "os_refuses L (dst @ [target_name (name_of p)]) = None"
  shows "\<exists>fs2. convert_files L dst ow fs conv skip (p # ps) = (fs2, Inl e)
          \<and> extends_files fs fs2"
proof -
  let ?out = "target_name (name_of p)"
  have f: "is_file fs p"
    using assms(1,2) by (intro api_file_is_file [of L]) (simp add: api_file_def)
  show ?thesis
  proof (cases "dumps L d")
    case (Inl x)
    with assms(3) have "x = e" by (simp add: write_error_def)
    with Inl assms(1,2,4,7) f show ?thesis by (auto simp: pjoin_target extends_refl)
  next
    case (Inr tx)
    with assms(3) obtain msg where m: "utf8_error L tx = Some msg" "e = UnicodeEncodeError msg"
      by (auto simp: write_error_def split: option.splits)
    have r: "resolve fs (dst @ [?out]) = Some (q @ [?out])"
      using resolve_child [OF assms(5,6)] target_name_proper [of "name_of p"] by simp
    from write_text_new_fail [OF assms(4) r m(1)] obtain fs2 where
      "write_text L fs (dst @ [?out]) tx = (fs2, Some (UnicodeEncodeError msg))"
      "extends_files fs fs2"
      by blast
    then show ?thesis
      using assms(1,2,4,7) f Inr m(2) by (auto simp: pjoin_target)
  qed
qed

lemma raised_on_extends:
  assumes "raised_on L fs2 dst ps r" and "extends_files fs fs2"
    and "\<forall>p \<in> set ps. path_exists fs p"
  shows "raised_on L fs dst ps r"
proof -
  from assms(1) obtain p d e where
    b: "r = Inl e" "p \<in> set ps" "load_json L fs2 p = Inr d" "is_api_graph d"
       "os_refuses L (dst @ [target_name (name_of p)]) = Some e \<or>
        write_error L d = Some e \<and> \<not> path_exists fs2 (dst @ [target_name (name_of p)])"
    unfolding raised_on_def by blast
  have "load_json L fs p = Inr d"
    using b(2,3) assms(2,3) by (simp add: extends_load_json)
  moreover have "os_refuses L (dst @ [target_name (name_of p)]) = Some e \<or>
        write_error L d = Some e \<and> \<not> path_exists fs (dst @ [target_name (name_of p)])"
    using b(5) assms(2) by (auto dest: extends_exists)
  ultimately show ?thesis using b(1,2,4) unfolding raised_on_def by blast
qed

lemma raised_on_Cons: "raised_on L fs dst ps r \<Longrightarrow> raised_on L fs dst (p # ps) r"
  unfolding raised_on_def by auto

lemma convert_files_no_overwrite:
  assumes "resolve fs dst = Some q" and "is_dir_key fs q"
    and "\<forall>p \<in> set ps. path_exists fs p"
  shows "\<exists>fs' r.
           convert_files L dst False fs conv skip ps = (fs', r)
         \<and> extends_files fs fs'
         \<and> ((\<exists>conv' skip'. r = Inr (conv', skip')
               \<and> (\<forall>out \<in> set conv'. out \<in> set conv \<or> \<not> path_exists fs (dst @ [out]))
               \<and> (\<forall>s \<in> set skip'. s \<in> set skip
                     \<or> (\<exists>p \<in> set ps. name_of p = s \<and> \<not> api_file L fs p)))
            \<or> raised_on L fs dst ps r)"
  using assms
proof (induction ps arbitrary: fs conv skip)
  case Nil
  then show ?case by (simp add: extends_refl)
next
  case (Cons p ps)
  have rest: "\<forall>p \<in> set ps. path_exists fs p" using Cons.prems(3) by simp
  show ?case
  proof (cases "api_file L fs p")
    case False
    let ?skip = "if is_file fs p then skip @ [name_of p] else skip"
    from Cons.IH [OF Cons.prems(1,2) rest, of conv ?skip]
    obtain fs' r where
      r: "convert_files L dst False fs conv ?skip ps = (fs', r)" "extends_files fs fs'"
      and alt: "(\<exists>conv' skip'. r = Inr (conv', skip')
               \<and> (\<forall>out \<in> set conv'. out \<in> set conv \<or> \<not> path_exists fs (dst @ [out]))
               \<and> (\<forall>s \<in> set skip'. s \<in> set ?skip
                     \<or> (\<exists>p \<in> set ps. name_of p = s \<and> \<not> api_file L fs p)))
            \<or> raised_on L fs dst ps r"
      by blast
    from alt have "(\<exists>conv' skip'. r = Inr (conv', skip')
               \<and> (\<forall>out \<in> set conv'. out \<in> set conv \<or> \<not> path_exists fs (dst @ [out]))
               \<and> (\<forall>s \<in> set skip'. s \<in> set skip
                     \<or> (\<exists>p' \<in> set (p # ps). name_of p' = s \<and> \<not> api_file L fs p')))
            \<or> raised_on L fs dst (p # ps) r"
    proof
      assume "\<exists>conv' skip'. r = Inr (conv', skip')
               \<and> (\<forall>out \<in> set conv'. out \<in> set conv \<or> \<not> path_exists fs (dst @ [out]))
               \<and> (\<forall>s \<in> set skip'. s \<in> set ?skip
                     \<or> (\<exists>p \<in> set ps. name_of p = s \<and> \<not> api_file L fs p))"
      then obtain conv' skip' where g: "r = Inr (conv', skip')"
        "\<forall>out \<in> set conv'. out \<in> set conv \<or> \<not> path_exists fs (dst @ [out])"
        "\<forall>s \<in> set skip'. s \<in> set ?skip
                     \<or> (\<exists>p \<in> set ps. name_of p = s \<and> \<not> api_file L fs p)"
        by blast
      have "\<forall>s \<in> set skip'. s \<in> set skip
             \<or> (\<exists>p' \<in> set (p # ps). name_of p' = s \<and> \<not> api_file L fs p')"
        using g(3) False by (auto split: if_splits)
      with g(1,2) show ?thesis by blast
    next
      assume "raised_on L fs dst ps r"
      then show ?thesis by (simp add: raised_on_Cons)
    qed
    with r show ?thesis
      unfolding convert_files_step_skip [OF False] by blast
  next
    case api: True
    let ?out = "target_name (name_of p)"
    from api obtain d where d: "load_json L fs p = Inr d" "is_api_graph d"
      by (auto simp: api_file_data)
    show ?thesis
    proof (cases "os_refuses L (dst @ [?out])")
      case (Some e)
      have "raised_on L fs dst (p # ps) (Inl e)"
        unfolding raised_on_def using d Some by auto
      then show ?thesis
        unfolding convert_files_step_refused [OF api Some] using extends_refl by blast
    next
      case acc: None
    show ?thesis
    proof (cases "path_exists fs (dst @ [?out])")
      case True
      from Cons.IH [OF Cons.prems(1,2) rest, of conv skip]
      obtain fs' r where
        r: "convert_files L dst False fs conv skip ps = (fs', r)" "extends_files fs fs'"
        and alt: "(\<exists>conv' skip'. r = Inr (conv', skip')
               \<and> (\<forall>out \<in> set conv'. out \<in> set conv \<or> \<not> path_exists fs (dst @ [out]))
               \<and> (\<forall>s \<in> set skip'. s \<in> set skip
                     \<or> (\<exists>p \<in> set ps. name_of p = s \<and> \<not> api_file L fs p)))
            \<or> raised_on L fs dst ps r"
        by blast
      from alt have "(\<exists>conv' skip'. r = Inr (conv', skip')
               \<and> (\<forall>out \<in> set conv'. out \<in> set conv \<or> \<not> path_exists fs (dst @ [out]))
               \<and> (\<forall>s \<in> set skip'. s \<in> set skip
                     \<or> (\<exists>p' \<in> set (p # ps). name_of p' = s \<and> \<not> api_file L fs p')))
            \<or> raised_on L fs dst (p # ps) r"
        by (fastforce simp: raised_on_Cons)
      with r show ?thesis
        unfolding convert_files_step_exists [OF api acc True] by blast
    next
      case False
      show ?thesis
      proof (cases "write_error L d")
        case (Some e)
        from convert_files_step_write_fail [OF d Some False Cons.prems(1,2) acc, of False conv skip ps]
        obtain fs2 where
          s: "convert_files L dst False fs conv skip (p # ps) = (fs2, Inl e)"
             "extends_files fs fs2"
          by blast
        have "raised_on L fs dst (p # ps) (Inl e)"
          unfolding raised_on_def using d Some False by auto
        with s show ?thesis by blast
      next
        case None
        from convert_files_step_write_ok [OF d None False Cons.prems(1,2) acc, of False conv skip ps]
        obtain fs2 where
          s: "convert_files L dst False fs conv skip (p # ps) =
                convert_files L dst False fs2 (conv @ [?out]) skip ps"
             "extends_files fs fs2"
          by blast
        have a2: "resolve fs2 dst = Some q" "is_dir_key fs2 q"
          using Cons.prems(1,2) s(2) by (simp_all add: extends_resolve extends_dir_key)
        have e2: "\<forall>p \<in> set ps. path_exists fs2 p"
          using rest s(2) by (auto dest: extends_exists)
        from Cons.IH [OF a2 e2, of "conv @ [?out]" skip]
        obtain fs' r where
          r: "convert_files L dst False fs2 (conv @ [?out]) skip ps = (fs', r)"
             "extends_files fs2 fs'"
          and alt: "(\<exists>conv' skip'. r = Inr (conv', skip')
               \<and> (\<forall>out \<in> set conv'. out \<in> set (conv @ [?out]) \<or> \<not> path_exists fs2 (dst @ [out]))
               \<and> (\<forall>s \<in> set skip'. s \<in> set skip
                     \<or> (\<exists>p \<in> set ps. name_of p = s \<and> \<not> api_file L fs2 p)))
            \<or> raised_on L fs2 dst ps r"
          by blast
        from alt have "(\<exists>conv' skip'. r = Inr (conv', skip')
               \<and> (\<forall>out \<in> set conv'. out \<in> set conv \<or> \<not> path_exists fs (dst @ [out]))
               \<and> (\<forall>s \<in> set skip'. s \<in> set skip
                     \<or> (\<exists>p' \<in> set (p # ps). name_of p' = s \<and> \<not> api_file L fs p')))
            \<or> raised_on L fs dst (p # ps) r"
        proof
          assume "\<exists>conv' skip'. r = Inr (conv', skip')
               \<and> (\<forall>out \<in> set conv'. out \<in> set (conv @ [?out]) \<or> \<not> path_exists fs2 (dst @ [out]))
               \<and> (\<forall>s \<in> set skip'. s \<in> set skip
                     \<or> (\<exists>p \<in> set ps. name_of p = s \<and> \<not> api_file L fs2 p))"
          then obtain conv' skip' where g: "r = Inr (conv', skip')"
            "\<forall>out \<in> set conv'. out \<in> set (conv @ [?out]) \<or> \<not> path_exists fs2 (dst @ [out])"
            "\<forall>s \<in> set skip'. s \<in> set skip
                     \<or> (\<exists>p \<in> set ps. name_of p = s \<and> \<not> api_file L fs2 p)"
            by blast
          have c: "\<forall>out \<in> set conv'. out \<in> set conv \<or> \<not> path_exists fs (dst @ [out])"
            using g(2) False s(2) by (auto dest: extends_exists)
          have k: "\<forall>s \<in> set skip'. s \<in> set skip
             \<or> (\<exists>p' \<in> set (p # ps). name_of p' = s \<and> \<not> api_file L fs p')"
            using g(3) rest s(2) by (fastforce simp: extends_api_file)
          from g(1) c k show ?thesis by blast
        next
          assume "raised_on L fs2 dst ps r"
          from raised_on_extends [OF this s(2) rest] show ?thesis
            by (simp add: raised_on_Cons)
        qed
        with r(1) extends_trans [OF s(2) r(2)] show ?thesis
          unfolding s(1) by blast
      qed
    qed
    qed
  qed
qed

lemma convert_files_fresh:
  assumes "resolve fs dst = Some q" and "is_dir_key fs q"
    and "\<forall>p \<in> set ps. path_exists fs p"
    and "\<forall>p \<in> set ps. api_file L fs p \<longrightarrow> \<not> path_exists fs (dst @ [target_name (name_of p)])"
    and "distinct (map (\<lambda>p. target_name (name_of p)) (filter (api_file L fs) ps))"
    and "\<forall>p \<in> set ps. \<forall>d. load_json L fs p = Inr d \<longrightarrow> is_api_graph d \<longrightarrow> write_error L d = None"
    and "\<forall>p \<in> set ps. api_file L fs p \<longrightarrow> os_refuses L (dst @ [target_name (name_of p)]) = None"
  shows "\<exists>fs'. convert_files L dst ow fs conv skip ps =
           (fs', Inr (conv @ map (\<lambda>p. target_name (name_of p)) (filter (api_file L fs) ps),
                      skip @ map name_of (filter (\<lambda>p. is_file fs p \<and> \<not> api_file L fs p) ps)))
         \<and> extends_files fs fs'
         \<and> (\<forall>p \<in> set ps. api_file L fs p \<longrightarrow>
               (\<exists>s. map_of fs' (q @ [target_name (name_of p)]) = Some (File (Inr s))))"
  using assms
proof (induction ps arbitrary: fs conv skip)
  case Nil
  then show ?case by (simp add: extends_refl)
next
  case (Cons p ps)
  have rest: "\<forall>p \<in> set ps. path_exists fs p" using Cons.prems(3) by simp
  have fresh: "\<forall>p \<in> set ps. api_file L fs p \<longrightarrow> \<not> path_exists fs (dst @ [target_name (name_of p)])"
    using Cons.prems(4) by simp
  have writable: "\<forall>p \<in> set ps. \<forall>d. load_json L fs p = Inr d \<longrightarrow> is_api_graph d \<longrightarrow>
      write_error L d = None"
    using Cons.prems(6) by simp
  have accepted: "\<forall>p \<in> set ps. api_file L fs p \<longrightarrow>
      os_refuses L (dst @ [target_name (name_of p)]) = None"
    using Cons.prems(7) by simp
  show ?case
  proof (cases "api_file L fs p")
    case False
    have d: "distinct (map (\<lambda>p. target_name (name_of p)) (filter (api_file L fs) ps))"
      using Cons.prems(5) False by simp
    from Cons.IH [OF Cons.prems(1,2) rest fresh d writable accepted,
        of conv "if is_file fs p then skip @ [name_of p] else skip"]
    show ?thesis
      unfolding convert_files_step_skip [OF False] using False by auto
  next
    case api: True
    let ?out = "target_name (name_of p)"
    from api obtain dt where dt: "load_json L fs p = Inr dt" "is_api_graph dt"
      by (auto simp: api_file_data)
    have wn: "write_error L dt = None" using Cons.prems(6) dt by simp
    have ne: "\<not> path_exists fs (dst @ [?out])" using Cons.prems(4) api by simp
    have acc: "os_refuses L (dst @ [?out]) = None" using Cons.prems(7) api by simp
    from convert_files_step_write_ok [OF dt wn ne Cons.prems(1,2) acc, of ow conv skip ps]
    obtain fs2 sx where
      s: "convert_files L dst ow fs conv skip (p # ps) =
            convert_files L dst ow fs2 (conv @ [?out]) skip ps"
         "extends_files fs fs2"
         "map_of fs2 = (map_of fs)(q @ [?out] \<mapsto> File (Inr sx))"
      by blast
    have a2: "resolve fs2 dst = Some q" "is_dir_key fs2 q"
      using Cons.prems(1,2) s(2) by (simp_all add: extends_resolve extends_dir_key)
    have e2: "\<forall>p \<in> set ps. path_exists fs2 p"
      using rest s(2) by (auto dest: extends_exists)
    have same_api: "\<forall>p' \<in> set ps. api_file L fs2 p' = api_file L fs p'"
      using rest s(2) by (simp add: extends_api_file)
    have same_file: "\<forall>p' \<in> set ps. is_file fs2 p' = is_file fs p'"
      using rest s(2) by (simp add: extends_is_file)
    have same_load: "\<forall>p' \<in> set ps. load_json L fs2 p' = load_json L fs p'"
      using rest s(2) by (simp add: extends_load_json)
    have w2: "\<forall>p \<in> set ps. \<forall>d. load_json L fs2 p = Inr d \<longrightarrow> is_api_graph d \<longrightarrow>
        write_error L d = None"
      using writable same_load by simp
    have acc2: "\<forall>p \<in> set ps. api_file L fs2 p \<longrightarrow>
        os_refuses L (dst @ [target_name (name_of p)]) = None"
      using accepted same_api by simp
    have f1: "filter (api_file L fs2) ps = filter (api_file L fs) ps"
      using same_api by (auto intro: filter_cong)
    have f2: "filter (\<lambda>p. is_file fs2 p \<and> \<not> api_file L fs2 p) ps =
              filter (\<lambda>p. is_file fs p \<and> \<not> api_file L fs p) ps"
      using same_api same_file by (auto intro: filter_cong)
    have d2: "distinct (map (\<lambda>p. target_name (name_of p)) (filter (api_file L fs2) ps))"
      using Cons.prems(5) api by (simp add: f1)
    have others: "\<forall>p' \<in> set ps. api_file L fs p' \<longrightarrow> target_name (name_of p') \<noteq> ?out"
      using Cons.prems(5) api by (auto simp: image_iff)
    have fresh2: "\<forall>p' \<in> set ps. api_file L fs2 p' \<longrightarrow>
        \<not> path_exists fs2 (dst @ [target_name (name_of p')])"
    proof (intro ballI impI)
      fix p' assume p': "p' \<in> set ps" "api_file L fs2 p'"
      let ?t = "target_name (name_of p')"
      have ap: "api_file L fs p'" using p' same_api by simp
      then have t: "?t \<noteq> ?out" using others p'(1) by simp
      have "\<not> path_exists fs (dst @ [?t])" using fresh p'(1) ap by simp
      then have "map_of fs (q @ [?t]) = None"
        using stat_in_dir [OF Cons.prems(1,2), of ?t] target_name_proper [of "name_of p'"]
        by (simp add: path_exists_def)
      then have "map_of fs2 (q @ [?t]) = None" using s(3) t by simp
      then show "\<not> path_exists fs2 (dst @ [?t])"
        using stat_in_dir [OF a2, of ?t] target_name_proper [of "name_of p'"]
        by (simp add: path_exists_def)
    qed
    from Cons.IH [OF a2 e2 fresh2 d2 w2 acc2, of "conv @ [?out]" skip]
    obtain fs' where
      r: "convert_files L dst ow fs2 (conv @ [?out]) skip ps =
           (fs', Inr ((conv @ [?out]) @ map (\<lambda>p. target_name (name_of p)) (filter (api_file L fs2) ps),
                      skip @ map name_of (filter (\<lambda>p. is_file fs2 p \<and> \<not> api_file L fs2 p) ps)))"
         "extends_files fs2 fs'"
         "\<forall>p \<in> set ps. api_file L fs2 p \<longrightarrow>
               (\<exists>s. map_of fs' (q @ [target_name (name_of p)]) = Some (File (Inr s)))"
      by blast
    have "map_of fs2 (q @ [?out]) = Some (File (Inr sx))" using s(3) by simp
    then have w: "map_of fs' (q @ [?out]) = Some (File (Inr sx))"
      using r(2) by (auto simp: extends_files_def)
    have "\<forall>p' \<in> set (p # ps). api_file L fs p' \<longrightarrow>
               (\<exists>s. map_of fs' (q @ [target_name (name_of p')]) = Some (File (Inr s)))"
      using r(3) w same_api by auto
    with r(1) extends_trans [OF s(2) r(2)] api show ?thesis
      unfolding s(1) f1 f2 by simp
  qed
qed

lemma glob_paths_exist: "glob_paths L fs d pat = Inr ps \<Longrightarrow> p \<in> set ps \<Longrightarrow> path_exists fs p"
  by (auto simp: glob_paths_def split: option.splits)

lemma glob_paths_distinct:
  assumes "glob_paths L fs d pat = Inr ps"
  shows "distinct ps"
proof (cases "resolve fs d")
  case None
  with assms show ?thesis by (auto simp: glob_paths_def split: option.splits)
next
  case (Some q)
  let ?ks = "filter (\<lambda>k. strict_prefix q k \<and> fnmatch L pat (drop (length q) k) \<and>
                          path_exists fs (d @ drop (length q) k)) (remdups (map fst fs))"
  have "inj_on (\<lambda>k. d @ drop (length q) k) (set ?ks)"
  proof (rule inj_onI)
    fix x y
    assume x: "x \<in> set ?ks" and y: "y \<in> set ?ks"
      and eq: "d @ drop (length q) x = d @ drop (length q) y"
    from x y have "take (length q) x = q" "take (length q) y = q"
      by (auto simp: strict_prefix_def prefix_def)
    moreover from eq have "drop (length q) x = drop (length q) y" by simp
    ultimately show "x = y" by (metis append_take_drop_id)
  qed
  moreover have "distinct ?ks" by simp
  moreover have "ps = map (\<lambda>k. d @ drop (length q) k) ?ks"
    using assms Some by (auto simp: glob_paths_def split: option.splits)
  ultimately show ?thesis by (simp add: distinct_map)
qed

lemma distinct_set_single: "distinct xs \<Longrightarrow> set xs = {a} \<Longrightarrow> xs = [a]"
  by (cases xs) (auto simp: subset_singleton_iff)

text \<open>
  C7. Let a path that the pattern matches load as an API graph, let its derived name
  be a regular file of the destination directory already, and let no other matched path
  have its file name. Then after \<open>convert_all\<close> without \<open>overwrite\<close> the destination
  file is as it was, whether the call returns or raises. When it returns, the derived
  name is not in \<open>converted\<close> and the name of the source file is not in \<open>skipped\<close>. It
  raises, and returns no list, only on a matched API graph: with the refusal of the
  graph's destination path by the operating system, or with the exception that
  serialising or encoding its document raises, for a graph whose destination did not
  exist.
\<close>

theorem convert_all_existing_destination:
  assumes "glob_paths L fs src pat = Inr ps" and "p \<in> set ps"
    and "load_json L fs p = Inr data" and "is_api_graph data"
    and "stat fs (dst @ [target_name (name_of p)]) = Some (File c)"
    and "\<forall>p' \<in> set ps. name_of p' = name_of p \<longrightarrow> p' = p"
  shows "\<exists>fs' r.
           convert_all L fs src dst False pat = (fs', r)
         \<and> stat fs' (dst @ [target_name (name_of p)]) = Some (File c)
         \<and> ((\<exists>converted skipped. r = Inr (converted, skipped)
               \<and> target_name (name_of p) \<notin> set converted
               \<and> name_of p \<notin> set skipped)
            \<or> raised_on L fs dst ps r)"
proof -
  let ?out = "target_name (name_of p)"
  from assms(5) obtain k where "resolve fs (dst @ [?out]) = Some k"
    by (auto simp: stat_def split: option.splits)
  from resolve_parent [OF this] target_name_proper [of "name_of p"]
  obtain q where q: "resolve fs dst = Some q" "is_dir_key fs q" by auto
  have call: "convert_all L fs src dst False pat = convert_files L dst False fs [] [] (sort ps)"
    using assms(1) by (simp add: convert_all_def mkdir_p_noop [OF q])
  have ex: "\<forall>p \<in> set (sort ps). path_exists fs p"
    using glob_paths_exist [OF assms(1)] by simp
  from convert_files_no_overwrite [OF q ex, of L "[]" "[]"]
  obtain fs' r where
    r: "convert_files L dst False fs [] [] (sort ps) = (fs', r)" "extends_files fs fs'"
    and alt: "(\<exists>conv' skip'. r = Inr (conv', skip')
               \<and> (\<forall>out \<in> set conv'. out \<in> set [] \<or> \<not> path_exists fs (dst @ [out]))
               \<and> (\<forall>s \<in> set skip'. s \<in> set []
                     \<or> (\<exists>p \<in> set (sort ps). name_of p = s \<and> \<not> api_file L fs p)))
            \<or> raised_on L fs dst (sort ps) r"
    by blast
  have api: "api_file L fs p" using assms(3,4) by (simp add: api_file_def)
  have kept: "stat fs' (dst @ [?out]) = Some (File c)"
    using extends_stat [OF r(2) assms(5)] .
  from alt have "(\<exists>converted skipped. r = Inr (converted, skipped)
               \<and> ?out \<notin> set converted \<and> name_of p \<notin> set skipped)
            \<or> raised_on L fs dst ps r"
  proof
    assume "\<exists>conv' skip'. r = Inr (conv', skip')
               \<and> (\<forall>out \<in> set conv'. out \<in> set [] \<or> \<not> path_exists fs (dst @ [out]))
               \<and> (\<forall>s \<in> set skip'. s \<in> set []
                     \<or> (\<exists>p \<in> set (sort ps). name_of p = s \<and> \<not> api_file L fs p))"
    then obtain conv' skip' where g: "r = Inr (conv', skip')"
      "\<forall>out \<in> set conv'. out \<in> set [] \<or> \<not> path_exists fs (dst @ [out])"
      "\<forall>s \<in> set skip'. s \<in> set []
                     \<or> (\<exists>p \<in> set (sort ps). name_of p = s \<and> \<not> api_file L fs p)"
      by blast
    have 2: "?out \<notin> set conv'"
      using g(2) assms(5) by (auto simp: path_exists_def)
    have 3: "name_of p \<notin> set skip'"
    proof
      assume "name_of p \<in> set skip'"
      with g(3) obtain p' where p': "p' \<in> set ps" "name_of p' = name_of p" "\<not> api_file L fs p'"
        by auto
      with assms(6) have "p' = p" by simp
      with p'(3) api show False by simp
    qed
    from g(1) 2 3 show ?thesis by blast
  next
    assume "raised_on L fs dst (sort ps) r"
    then show ?thesis by (simp add: raised_on_def)
  qed
  with call r(1) kept show ?thesis by simp
qed

text \<open>
  C6, as the code has it. Let \<open>fs1\<close> be the file system once the destination directory
  is made, and let the regular files the pattern matches be three: \<open>a\<close>, which loads as
  an API graph whose document can be serialised and its text encoded, \<open>u\<close>, which
  loads as something else, and \<open>i\<close>, whose text does not parse; let the derived name of
  \<open>a\<close> not exist in the destination directory, and be a name the operating system
  accepts there. Then \<open>convert_all\<close> returns, whatever
  \<open>overwrite\<close> is: \<open>converted\<close> is the derived name of \<open>a\<close> alone, which is a file of the
  destination directory afterwards, and \<open>skipped\<close> has two entries, the names of \<open>u\<close>
  and of \<open>i\<close>.
\<close>

theorem convert_all_partition:
  assumes "mkdir_p fs dst = (fs1, None)"
    and "glob_paths L fs1 src pat = Inr ps"
    and "{p \<in> set ps. is_file fs1 p} = {a, u, i}"
    and "a \<noteq> u" and "a \<noteq> i" and "u \<noteq> i"
    and "load_json L fs1 a = Inr da" and "is_api_graph da" and "write_error L da = None"
    and "load_json L fs1 u = Inr du" and "\<not> is_api_graph du"
    and "read_text fs1 i = Inr ti" and "loads L ti = Inl e"
    and "\<not> path_exists fs1 (dst @ [target_name (name_of a)])"
    and "os_refuses L (dst @ [target_name (name_of a)]) = None"
  shows "\<exists>fs' skipped.
           convert_all L fs src dst ow pat = (fs', Inr ([target_name (name_of a)], skipped))
         \<and> set skipped = {name_of u, name_of i} \<and> length skipped = 2
         \<and> is_file fs' (dst @ [target_name (name_of a)])"
proof -
  let ?out = "target_name (name_of a)"
  let ?ps = "sort ps"
  let ?bad = "\<lambda>p. is_file fs1 p \<and> \<not> api_file L fs1 p"
  from mkdir_p_resolves [OF assms(1)] obtain q where
    q: "resolve fs1 dst = Some q" "is_dir_key fs1 q" by blast
  have call: "convert_all L fs src dst ow pat = convert_files L dst ow fs1 [] [] ?ps"
    using assms(1,2) by (simp add: convert_all_def)
  have ex: "\<forall>p \<in> set ?ps. path_exists fs1 p"
    using glob_paths_exist [OF assms(2)] by simp
  have dist: "distinct ?ps" using glob_paths_distinct [OF assms(2)] by simp
  have mem: "a \<in> set ?ps" "u \<in> set ?ps" "i \<in> set ?ps"
    and isf: "is_file fs1 a" "is_file fs1 u" "is_file fs1 i"
    using assms(3) by auto
  have only: "p = a \<or> p = u \<or> p = i" if "p \<in> set ?ps" "is_file fs1 p" for p
    using assms(3) that by auto
  have api_a: "api_file L fs1 a" using assms(7,8) by (simp add: api_file_def)
  have api_u: "\<not> api_file L fs1 u" using assms(10,11) by (simp add: api_file_def)
  have api_i: "\<not> api_file L fs1 i" using assms(12,13) by (simp add: api_file_def load_json_def)
  have "set (filter (api_file L fs1) ?ps) = {a}"
    using mem(1) only api_a api_u api_i api_file_is_file [of L fs1] by auto
  with dist have fa: "filter (api_file L fs1) ?ps = [a]"
    by (intro distinct_set_single) simp_all
  have only_a: "p = a" if "p \<in> set ?ps" "api_file L fs1 p" for p
  proof -
    from that have "p \<in> set (filter (api_file L fs1) ?ps)" by simp
    then show ?thesis unfolding fa by simp
  qed
  have sb: "set (filter ?bad ?ps) = {u, i}"
    using mem isf only api_a api_u api_i by auto
  have db: "distinct (filter ?bad ?ps)" using dist by simp
  have lb: "length (filter ?bad ?ps) = 2"
    using distinct_card [OF db] sb assms(6) by simp
  have fresh: "\<forall>p \<in> set ?ps. api_file L fs1 p \<longrightarrow>
      \<not> path_exists fs1 (dst @ [target_name (name_of p)])"
    using only_a assms(14) by blast
  have d: "distinct (map (\<lambda>p. target_name (name_of p)) (filter (api_file L fs1) ?ps))"
    unfolding fa by simp
  have writable: "\<forall>p \<in> set ?ps. \<forall>d. load_json L fs1 p = Inr d \<longrightarrow> is_api_graph d \<longrightarrow>
      write_error L d = None"
  proof (intro ballI allI impI)
    fix p d assume p: "p \<in> set ?ps" "load_json L fs1 p = Inr d" "is_api_graph d"
    then have "api_file L fs1 p" by (simp add: api_file_def)
    with p(1) have "p = a" by (rule only_a)
    with p(2) assms(7,9) show "write_error L d = None" by simp
  qed
  have accepted: "\<forall>p \<in> set ?ps. api_file L fs1 p \<longrightarrow>
      os_refuses L (dst @ [target_name (name_of p)]) = None"
    using only_a assms(15) by blast
  from convert_files_fresh [OF q ex fresh d writable accepted, of ow "[]" "[]"]
  obtain fs' where
    r: "convert_files L dst ow fs1 [] [] ?ps =
          (fs', Inr ([] @ map (\<lambda>p. target_name (name_of p)) (filter (api_file L fs1) ?ps),
                     [] @ map name_of (filter ?bad ?ps)))"
       "extends_files fs1 fs'"
       "\<forall>p \<in> set ?ps. api_file L fs1 p \<longrightarrow>
           (\<exists>s. map_of fs' (q @ [target_name (name_of p)]) = Some (File (Inr s)))"
    by blast
  from mem(1) r(3) api_a obtain s where s: "map_of fs' (q @ [?out]) = Some (File (Inr s))" by blast
  have q': "resolve fs' dst = Some q" "is_dir_key fs' q"
    using q r(2) by (simp_all add: extends_resolve extends_dir_key)
  have written: "is_file fs' (dst @ [?out])"
    using stat_in_dir [OF q', of ?out] target_name_proper [of "name_of a"] s
    by (simp add: is_file_def)
  have "set (map name_of (filter ?bad ?ps)) = {name_of u, name_of i}"
    unfolding set_map sb by simp
  with call r(1) fa lb written show ?thesis by simp
qed

text \<open>The three files of \<open>demo_src\<close>, exported into a directory that does not exist yet.\<close>

theorem convert_all_partition_witness:
  "mkdir_p demo_src [''out''] = (demo_src @ [([''out''], Dir)], None)
   \<and> is_api_graph api_doc \<and> write_error demo_lib api_doc = None
   \<and> is_api_graph ui_doc = False
   \<and> loads demo_lib bad_text =
       Inl (JSONDecodeError
              ''Expecting property name enclosed in double quotes: line 1 column 2 (char 1)'')
   \<and> path_exists (demo_src @ [([''out''], Dir)]) [''out'', ''g.api.json''] = False
   \<and> os_refuses demo_lib [''out'', ''g.api.json''] = None
   \<and> (\<exists>fs' skipped.
         convert_all demo_lib demo_src [''w''] [''out''] True ''*.json'' =
           (fs', Inr ([''g.api.json''], skipped))
         \<and> set skipped = {''u.json'', ''bad.json''} \<and> length skipped = 2
         \<and> is_file fs' [''out'', ''g.api.json''])"
proof -
  let ?fs1 = "demo_src @ [([''out''], Dir)]"
  let ?a = "[''w'', ''g.json'']" and ?u = "[''w'', ''u.json'']" and ?i = "[''w'', ''bad.json'']"
  let ?e = "JSONDecodeError
              ''Expecting property name enclosed in double quotes: line 1 column 2 (char 1)''"
  have 1: "mkdir_p demo_src [''out''] = (?fs1, None)" by code_simp
  have g: "glob_paths demo_lib ?fs1 [''w''] ''*.json'' = Inr [?a, ?u, ?i]" by code_simp
  have f: "is_file ?fs1 ?a" "is_file ?fs1 ?u" "is_file ?fs1 ?i" by code_simp+
  have 2: "{p \<in> set [?a, ?u, ?i]. is_file ?fs1 p} = {?a, ?u, ?i}"
    using f by auto
  have 3: "?a \<noteq> ?u" "?a \<noteq> ?i" "?u \<noteq> ?i" by simp_all
  have 4: "load_json demo_lib ?fs1 ?a = Inr api_doc" by code_simp
  have 5: "is_api_graph api_doc" by code_simp
  have w: "write_error demo_lib api_doc = None" by code_simp
  have 6: "load_json demo_lib ?fs1 ?u = Inr ui_doc" by code_simp
  have 7: "\<not> is_api_graph ui_doc" by code_simp
  have 8: "read_text ?fs1 ?i = Inr bad_text" by code_simp
  have 9: "loads demo_lib bad_text = Inl ?e" by code_simp
  have t: "target_name (name_of ?a) = ''g.api.json''" by code_simp
  have n: "name_of ?u = ''u.json''" "name_of ?i = ''bad.json''" by code_simp+
  have 10: "\<not> path_exists ?fs1 ([''out''] @ [target_name (name_of ?a)])"
    unfolding t by code_simp
  have 11: "os_refuses demo_lib ([''out''] @ [target_name (name_of ?a)]) = None"
    unfolding t by code_simp
  from convert_all_partition [OF 1 g 2 3 4 5 w 6 7 8 9 10 11, of True]
  have "\<exists>fs' skipped.
         convert_all demo_lib demo_src [''w''] [''out''] True ''*.json'' =
           (fs', Inr ([''g.api.json''], skipped))
         \<and> set skipped = {''u.json'', ''bad.json''} \<and> length skipped = 2
         \<and> is_file fs' [''out'', ''g.api.json'']"
    unfolding t n by simp
  moreover have "path_exists ?fs1 [''out'', ''g.api.json''] = False" using 10 t by simp
  moreover have "os_refuses demo_lib [''out'', ''g.api.json''] = None" using 11 t by simp
  ultimately show ?thesis using 1 5 w 7 9 by simp
qed

text \<open>
  C6 as stated fails for an API graph whose text cannot be encoded. In \<open>demo_sur\<close> the
  three files are the API graph \<open>s.json\<close>, whose \<open>class_type\<close> is a lone surrogate,
  the UI workflow \<open>u.json\<close> and \<open>bad.json\<close>, which does not parse; the destination
  directory does not exist. The call returns no list: it raises the
  \<^verbatim>\<open>UnicodeEncodeError\<close> of the write and leaves \<open>out/s.api.json\<close> empty.
\<close>

theorem convert_all_partition_unencodable:
  "mkdir_p demo_sur [''out''] = (demo_sur @ [([''out''], Dir)], None)
   \<and> glob_paths demo_lib (demo_sur @ [([''out''], Dir)]) [''w''] ''*.json'' =
       Inr [[''w'', ''s.json''], [''w'', ''u.json''], [''w'', ''bad.json'']]
   \<and> load_json demo_lib demo_sur [''w'', ''s.json''] = Inr sur_doc
   \<and> is_api_graph sur_doc
   \<and> load_json demo_lib demo_sur [''w'', ''u.json''] = Inr ui_doc
   \<and> is_api_graph ui_doc = False
   \<and> load_json demo_lib demo_sur [''w'', ''bad.json''] =
       Inl (JSONDecodeError
              ''Expecting property name enclosed in double quotes: line 1 column 2 (char 1)'')
   \<and> path_exists demo_sur [''out''] = False
   \<and> os_refuses demo_lib [''out'', ''s.api.json''] = None
   \<and> convert_all demo_lib demo_sur [''w''] [''out''] False ''*.json'' =
       (demo_sur @ [([''out''], Dir), ([''out'', ''s.api.json''], File (Inr []))],
        Inl (UnicodeEncodeError sur_message))"
  by code_simp

text \<open>\<open>g.json\<close> of \<open>demo_src_out\<close>, whose destination \<open>out/g.api.json\<close> holds \<open>old\<close>.\<close>

theorem convert_all_existing_destination_witness:
  "glob_paths demo_lib demo_src_out [''w''] ''*.json'' =
     Inr [[''w'', ''g.json''], [''w'', ''u.json''], [''w'', ''bad.json'']]
   \<and> load_json demo_lib demo_src_out [''w'', ''g.json''] = Inr api_doc
   \<and> is_api_graph api_doc
   \<and> target_name ''g.json'' = ''g.api.json''
   \<and> stat demo_src_out [''out'', ''g.api.json''] = Some (File (Inr ''old''))
   \<and> snd (convert_all demo_lib demo_src_out [''w''] [''out''] False ''*.json'') =
       Inr ([], [''bad.json'', ''u.json''])
   \<and> (\<exists>fs' r.
         convert_all demo_lib demo_src_out [''w''] [''out''] False ''*.json'' = (fs', r)
         \<and> stat fs' [''out'', ''g.api.json''] = Some (File (Inr ''old''))
         \<and> ((\<exists>converted skipped. r = Inr (converted, skipped)
               \<and> ''g.api.json'' \<notin> set converted \<and> ''g.json'' \<notin> set skipped)
            \<or> raised_on demo_lib demo_src_out [''out'']
                 [[''w'', ''g.json''], [''w'', ''u.json''], [''w'', ''bad.json'']] r))"
proof -
  let ?p = "[''w'', ''g.json'']"
  let ?ps = "[?p, [''w'', ''u.json''], [''w'', ''bad.json'']]"
  have g: "glob_paths demo_lib demo_src_out [''w''] ''*.json'' = Inr ?ps" by code_simp
  have 1: "?p \<in> set ?ps" by simp
  have 2: "load_json demo_lib demo_src_out ?p = Inr api_doc" by code_simp
  have 3: "is_api_graph api_doc" by code_simp
  have n: "name_of ?p = ''g.json''" by code_simp
  have t: "target_name ''g.json'' = ''g.api.json''" by code_simp
  have 4: "stat demo_src_out ([''out''] @ [target_name (name_of ?p)]) = Some (File (Inr ''old''))"
    unfolding n t by code_simp
  have 5: "\<forall>p' \<in> set ?ps. name_of p' = name_of ?p \<longrightarrow> p' = ?p"
    by (simp add: name_of_def)
  have 6: "snd (convert_all demo_lib demo_src_out [''w''] [''out''] False ''*.json'') =
       Inr ([], [''bad.json'', ''u.json''])" by code_simp
  from convert_all_existing_destination [OF g 1 2 3 4 5]
  have "\<exists>fs' r.
         convert_all demo_lib demo_src_out [''w''] [''out''] False ''*.json'' = (fs', r)
         \<and> stat fs' [''out'', ''g.api.json''] = Some (File (Inr ''old''))
         \<and> ((\<exists>converted skipped. r = Inr (converted, skipped)
               \<and> ''g.api.json'' \<notin> set converted \<and> ''g.json'' \<notin> set skipped)
            \<or> raised_on demo_lib demo_src_out [''out''] ?ps r)"
    unfolding n t by simp
  moreover have "stat demo_src_out [''out'', ''g.api.json''] = Some (File (Inr ''old''))"
    using 4 unfolding n t by simp
  ultimately show ?thesis using g 2 3 t 6 by simp
qed

text \<open>The API graph \<open>w/g.json\<close> after a call with \<open>overwrite\<close> into \<open>out\<close>.\<close>

theorem convert_all_frame_witness:
  "map_of demo_src_out [''w'', ''g.json''] = Some (File (Inr api_text))
   \<and> prefix (norm_path [''w'']) (norm_path [''out'']) = False
   \<and> strict_prefix (norm_path [''w'']) [''w'', ''g.json'']
   \<and> map_of (fst (convert_all demo_lib demo_src_out [''w''] [''out''] True ''*.json''))
        [''w'', ''g.json''] = Some (File (Inr api_text))"
proof -
  let ?k = "[''w'', ''g.json'']"
  let ?c = "convert_all demo_lib demo_src_out [''w''] [''out''] True ''*.json''"
  have 1: "?c = (fst ?c, snd ?c)" by simp
  have 2: "map_of demo_src_out ?k = Some (File (Inr api_text))" by code_simp
  have 3: "\<not> prefix (norm_path [''w'']) (norm_path [''out''])" by (simp add: norm_path_def)
  have 4: "strict_prefix (norm_path [''w'']) ?k" by (simp add: norm_path_def)
  from convert_all_frame [OF 1 2] 3 4
  have "map_of (fst ?c) ?k = Some (File (Inr api_text))" by blast
  with 2 3 4 show ?thesis by simp
qed

text \<open>
  C8 as stated fails when the destination directory is the source directory: with
  \<open>overwrite\<close> set, the API graph \<open>w/g.api.json\<close> is its own destination, and its text
  is replaced by the pretty-printed document.
\<close>

theorem convert_all_rewrites_source:
  "map_of demo_inplace [''w'', ''g.api.json''] = Some (File (Inr api_text))
   \<and> glob_paths demo_lib demo_inplace [''w''] ''*.json'' = Inr [[''w'', ''g.api.json'']]
   \<and> convert_all demo_lib demo_inplace [''w''] [''w''] True ''*.json'' =
       ([([''w''], Dir), ([''w'', ''g.api.json''], File (Inr api_pretty))],
        Inr ([''g.api.json''], []))
   \<and> api_pretty \<noteq> api_text"
  by code_simp

end
